theory Spec2Isabelle
  imports Main "HOL-Library.Word"
begin

section \<open>Errors\<close>

text \<open>
  Every C++ exception, failed assertion and out-of-range access of the modelled code is a
  value of this type; a function that can fail returns \<open>error + 'a\<close> with \<open>Inl\<close> the failure.
  \<^item> \<open>OutOfBounds\<close>: \<open>std::vector::operator[]\<close> with an index beyond the size (undefined
    behaviour in C++);
  \<^item> \<open>Exception\<close>: \<open>util::Exception\<close> thrown by the accessors of \<open>AssemblyItem\<close>;
  \<^item> \<open>OptimizerException\<close>, \<open>AssemblyException\<close>, \<open>InvalidDeposit\<close>: thrown by \<open>assertThrow\<close>;
  \<^item> \<open>InternalCompilerError\<close>: a failed \<open>solAssert\<close>;
  \<^item> \<open>AssertionFailed\<close>: a failed C \<open>assert\<close>;
  \<^item> \<open>OutOfRange\<close>: \<open>std::out_of_range\<close> thrown by \<open>std::map::at\<close>;
  \<^item> \<open>OutOfFuel\<close>: the bound of a fuelled loop was reached.
\<close>

datatype error =
    OutOfBounds
  | Exception
  | OptimizerException
  | AssemblyException
  | InvalidDeposit
  | InternalCompilerError
  | AssertionFailed
  | OutOfRange
  | OutOfFuel

section \<open>Instructions (libevmasm/Instruction.h)\<close>

text \<open>
  \<open>enum class Instruction: uint8_t\<close>. The header is not among the sources; the opcodes
  carry the byte values of the EVM instruction set.
\<close>

type_synonym Instruction = "8 word"

abbreviation (input) STOP :: Instruction where "STOP \<equiv> 0x00"
abbreviation (input) ADD :: Instruction where "ADD \<equiv> 0x01"
abbreviation (input) MUL :: Instruction where "MUL \<equiv> 0x02"
abbreviation (input) EQ :: Instruction where "EQ \<equiv> 0x14"
abbreviation (input) KECCAK256 :: Instruction where "KECCAK256 \<equiv> 0x20"
abbreviation (input) ADDRESS :: Instruction where "ADDRESS \<equiv> 0x30"
abbreviation (input) BALANCE :: Instruction where "BALANCE \<equiv> 0x31"
abbreviation (input) ORIGIN :: Instruction where "ORIGIN \<equiv> 0x32"
abbreviation (input) CALLER :: Instruction where "CALLER \<equiv> 0x33"
abbreviation (input) GASPRICE :: Instruction where "GASPRICE \<equiv> 0x3a"
abbreviation (input) EXTCODESIZE :: Instruction where "EXTCODESIZE \<equiv> 0x3b"
abbreviation (input) EXTCODECOPY :: Instruction where "EXTCODECOPY \<equiv> 0x3c"
abbreviation (input) RETURNDATASIZE :: Instruction where "RETURNDATASIZE \<equiv> 0x3d"
abbreviation (input) RETURNDATACOPY :: Instruction where "RETURNDATACOPY \<equiv> 0x3e"
abbreviation (input) EXTCODEHASH :: Instruction where "EXTCODEHASH \<equiv> 0x3f"
abbreviation (input) BLOCKHASH :: Instruction where "BLOCKHASH \<equiv> 0x40"
abbreviation (input) COINBASE :: Instruction where "COINBASE \<equiv> 0x41"
abbreviation (input) TIMESTAMP :: Instruction where "TIMESTAMP \<equiv> 0x42"
abbreviation (input) NUMBER :: Instruction where "NUMBER \<equiv> 0x43"
abbreviation (input) DIFFICULTY :: Instruction where "DIFFICULTY \<equiv> 0x44"
abbreviation (input) GASLIMIT :: Instruction where "GASLIMIT \<equiv> 0x45"
abbreviation (input) CHAINID :: Instruction where "CHAINID \<equiv> 0x46"
abbreviation (input) SELFBALANCE :: Instruction where "SELFBALANCE \<equiv> 0x47"
abbreviation (input) POP :: Instruction where "POP \<equiv> 0x50"
abbreviation (input) MLOAD :: Instruction where "MLOAD \<equiv> 0x51"
abbreviation (input) MSTORE :: Instruction where "MSTORE \<equiv> 0x52"
abbreviation (input) SLOAD :: Instruction where "SLOAD \<equiv> 0x54"
abbreviation (input) SSTORE :: Instruction where "SSTORE \<equiv> 0x55"
abbreviation (input) JUMP :: Instruction where "JUMP \<equiv> 0x56"
abbreviation (input) JUMPI :: Instruction where "JUMPI \<equiv> 0x57"
abbreviation (input) PC :: Instruction where "PC \<equiv> 0x58"
abbreviation (input) MSIZE :: Instruction where "MSIZE \<equiv> 0x59"
abbreviation (input) GAS :: Instruction where "GAS \<equiv> 0x5a"
abbreviation (input) DUP1 :: Instruction where "DUP1 \<equiv> 0x80"
abbreviation (input) DUP16 :: Instruction where "DUP16 \<equiv> 0x8f"
abbreviation (input) SWAP1 :: Instruction where "SWAP1 \<equiv> 0x90"
abbreviation (input) SWAP16 :: Instruction where "SWAP16 \<equiv> 0x9f"
abbreviation (input) CREATE :: Instruction where "CREATE \<equiv> 0xf0"
abbreviation (input) CALL :: Instruction where "CALL \<equiv> 0xf1"
abbreviation (input) CALLCODE :: Instruction where "CALLCODE \<equiv> 0xf2"
abbreviation (input) RETURN :: Instruction where "RETURN \<equiv> 0xf3"
abbreviation (input) DELEGATECALL :: Instruction where "DELEGATECALL \<equiv> 0xf4"
abbreviation (input) CREATE2 :: Instruction where "CREATE2 \<equiv> 0xf5"
abbreviation (input) STATICCALL :: Instruction where "STATICCALL \<equiv> 0xfa"
abbreviation (input) REVERT :: Instruction where "REVERT \<equiv> 0xfd"
abbreviation (input) INVALID :: Instruction where "INVALID \<equiv> 0xfe"
abbreviation (input) SELFDESTRUCT :: Instruction where "SELFDESTRUCT \<equiv> 0xff"

text \<open>The two range tests of Instruction.h.\<close>

definition isDupInstruction :: "Instruction \<Rightarrow> bool" where
  "isDupInstruction inst = (DUP1 \<le> inst \<and> inst \<le> DUP16)"

definition isSwapInstruction :: "Instruction \<Rightarrow> bool" where
  "isSwapInstruction inst = (SWAP1 \<le> inst \<and> inst \<le> SWAP16)"

text \<open>
  \<open>struct InstructionInfo\<close>: the mnemonic, the number of stack arguments, the number of
  stack results and the side-effect flag (additional bytes and gas tier are not used by the
  modelled code).
\<close>

record InstructionInfo =
  name :: string
  args :: int
  ret :: int
  sideEffects :: bool

text \<open>
  Modelled from the spec: the table \<open>c_instructionInfo\<close> of libevmasm/Instruction.cpp is not
  among the sources. The spec speaks of an opcode's "declared" or "native" arity and of its
  "declared side effect"; the entries are those of the EVM instruction set. A lookup of a
  byte that is no instruction gives the entry of an invalid instruction, as the C++ does.
\<close>

definition c_instructionInfo :: "(Instruction \<times> InstructionInfo) list" where
  "c_instructionInfo = [
    (0x00, \<lparr>name = ''STOP'', args = 0, ret = 0, sideEffects = True\<rparr>),
    (0x01, \<lparr>name = ''ADD'', args = 2, ret = 1, sideEffects = False\<rparr>),
    (0x02, \<lparr>name = ''MUL'', args = 2, ret = 1, sideEffects = False\<rparr>),
    (0x03, \<lparr>name = ''SUB'', args = 2, ret = 1, sideEffects = False\<rparr>),
    (0x04, \<lparr>name = ''DIV'', args = 2, ret = 1, sideEffects = False\<rparr>),
    (0x05, \<lparr>name = ''SDIV'', args = 2, ret = 1, sideEffects = False\<rparr>),
    (0x06, \<lparr>name = ''MOD'', args = 2, ret = 1, sideEffects = False\<rparr>),
    (0x07, \<lparr>name = ''SMOD'', args = 2, ret = 1, sideEffects = False\<rparr>),
    (0x08, \<lparr>name = ''ADDMOD'', args = 3, ret = 1, sideEffects = False\<rparr>),
    (0x09, \<lparr>name = ''MULMOD'', args = 3, ret = 1, sideEffects = False\<rparr>),
    (0x0a, \<lparr>name = ''EXP'', args = 2, ret = 1, sideEffects = False\<rparr>),
    (0x0b, \<lparr>name = ''SIGNEXTEND'', args = 2, ret = 1, sideEffects = False\<rparr>),
    (0x10, \<lparr>name = ''LT'', args = 2, ret = 1, sideEffects = False\<rparr>),
    (0x11, \<lparr>name = ''GT'', args = 2, ret = 1, sideEffects = False\<rparr>),
    (0x12, \<lparr>name = ''SLT'', args = 2, ret = 1, sideEffects = False\<rparr>),
    (0x13, \<lparr>name = ''SGT'', args = 2, ret = 1, sideEffects = False\<rparr>),
    (0x14, \<lparr>name = ''EQ'', args = 2, ret = 1, sideEffects = False\<rparr>),
    (0x15, \<lparr>name = ''ISZERO'', args = 1, ret = 1, sideEffects = False\<rparr>),
    (0x16, \<lparr>name = ''AND'', args = 2, ret = 1, sideEffects = False\<rparr>),
    (0x17, \<lparr>name = ''OR'', args = 2, ret = 1, sideEffects = False\<rparr>),
    (0x18, \<lparr>name = ''XOR'', args = 2, ret = 1, sideEffects = False\<rparr>),
    (0x19, \<lparr>name = ''NOT'', args = 1, ret = 1, sideEffects = False\<rparr>),
    (0x1a, \<lparr>name = ''BYTE'', args = 2, ret = 1, sideEffects = False\<rparr>),
    (0x1b, \<lparr>name = ''SHL'', args = 2, ret = 1, sideEffects = False\<rparr>),
    (0x1c, \<lparr>name = ''SHR'', args = 2, ret = 1, sideEffects = False\<rparr>),
    (0x1d, \<lparr>name = ''SAR'', args = 2, ret = 1, sideEffects = False\<rparr>),
    (0x20, \<lparr>name = ''KECCAK256'', args = 2, ret = 1, sideEffects = True\<rparr>),
    (0x30, \<lparr>name = ''ADDRESS'', args = 0, ret = 1, sideEffects = False\<rparr>),
    (0x31, \<lparr>name = ''BALANCE'', args = 1, ret = 1, sideEffects = False\<rparr>),
    (0x32, \<lparr>name = ''ORIGIN'', args = 0, ret = 1, sideEffects = False\<rparr>),
    (0x33, \<lparr>name = ''CALLER'', args = 0, ret = 1, sideEffects = False\<rparr>),
    (0x34, \<lparr>name = ''CALLVALUE'', args = 0, ret = 1, sideEffects = False\<rparr>),
    (0x35, \<lparr>name = ''CALLDATALOAD'', args = 1, ret = 1, sideEffects = False\<rparr>),
    (0x36, \<lparr>name = ''CALLDATASIZE'', args = 0, ret = 1, sideEffects = False\<rparr>),
    (0x37, \<lparr>name = ''CALLDATACOPY'', args = 3, ret = 0, sideEffects = True\<rparr>),
    (0x38, \<lparr>name = ''CODESIZE'', args = 0, ret = 1, sideEffects = False\<rparr>),
    (0x39, \<lparr>name = ''CODECOPY'', args = 3, ret = 0, sideEffects = True\<rparr>),
    (0x3a, \<lparr>name = ''GASPRICE'', args = 0, ret = 1, sideEffects = False\<rparr>),
    (0x3b, \<lparr>name = ''EXTCODESIZE'', args = 1, ret = 1, sideEffects = False\<rparr>),
    (0x3c, \<lparr>name = ''EXTCODECOPY'', args = 4, ret = 0, sideEffects = True\<rparr>),
    (0x3d, \<lparr>name = ''RETURNDATASIZE'', args = 0, ret = 1, sideEffects = False\<rparr>),
    (0x3e, \<lparr>name = ''RETURNDATACOPY'', args = 3, ret = 0, sideEffects = True\<rparr>),
    (0x3f, \<lparr>name = ''EXTCODEHASH'', args = 1, ret = 1, sideEffects = False\<rparr>),
    (0x40, \<lparr>name = ''BLOCKHASH'', args = 1, ret = 1, sideEffects = False\<rparr>),
    (0x41, \<lparr>name = ''COINBASE'', args = 0, ret = 1, sideEffects = False\<rparr>),
    (0x42, \<lparr>name = ''TIMESTAMP'', args = 0, ret = 1, sideEffects = False\<rparr>),
    (0x43, \<lparr>name = ''NUMBER'', args = 0, ret = 1, sideEffects = False\<rparr>),
    (0x44, \<lparr>name = ''DIFFICULTY'', args = 0, ret = 1, sideEffects = False\<rparr>),
    (0x45, \<lparr>name = ''GASLIMIT'', args = 0, ret = 1, sideEffects = False\<rparr>),
    (0x46, \<lparr>name = ''CHAINID'', args = 0, ret = 1, sideEffects = False\<rparr>),
    (0x47, \<lparr>name = ''SELFBALANCE'', args = 0, ret = 1, sideEffects = False\<rparr>),
    (0x50, \<lparr>name = ''POP'', args = 1, ret = 0, sideEffects = False\<rparr>),
    (0x51, \<lparr>name = ''MLOAD'', args = 1, ret = 1, sideEffects = True\<rparr>),
    (0x52, \<lparr>name = ''MSTORE'', args = 2, ret = 0, sideEffects = True\<rparr>),
    (0x53, \<lparr>name = ''MSTORE8'', args = 2, ret = 0, sideEffects = True\<rparr>),
    (0x54, \<lparr>name = ''SLOAD'', args = 1, ret = 1, sideEffects = False\<rparr>),
    (0x55, \<lparr>name = ''SSTORE'', args = 2, ret = 0, sideEffects = True\<rparr>),
    (0x56, \<lparr>name = ''JUMP'', args = 1, ret = 0, sideEffects = True\<rparr>),
    (0x57, \<lparr>name = ''JUMPI'', args = 2, ret = 0, sideEffects = True\<rparr>),
    (0x58, \<lparr>name = ''PC'', args = 0, ret = 1, sideEffects = False\<rparr>),
    (0x59, \<lparr>name = ''MSIZE'', args = 0, ret = 1, sideEffects = False\<rparr>),
    (0x5a, \<lparr>name = ''GAS'', args = 0, ret = 1, sideEffects = False\<rparr>),
    (0x5b, \<lparr>name = ''JUMPDEST'', args = 0, ret = 0, sideEffects = True\<rparr>),
    (0x60, \<lparr>name = ''PUSH1'', args = 0, ret = 1, sideEffects = False\<rparr>),
    (0x61, \<lparr>name = ''PUSH2'', args = 0, ret = 1, sideEffects = False\<rparr>),
    (0x62, \<lparr>name = ''PUSH3'', args = 0, ret = 1, sideEffects = False\<rparr>),
    (0x63, \<lparr>name = ''PUSH4'', args = 0, ret = 1, sideEffects = False\<rparr>),
    (0x64, \<lparr>name = ''PUSH5'', args = 0, ret = 1, sideEffects = False\<rparr>),
    (0x65, \<lparr>name = ''PUSH6'', args = 0, ret = 1, sideEffects = False\<rparr>),
    (0x66, \<lparr>name = ''PUSH7'', args = 0, ret = 1, sideEffects = False\<rparr>),
    (0x67, \<lparr>name = ''PUSH8'', args = 0, ret = 1, sideEffects = False\<rparr>),
    (0x68, \<lparr>name = ''PUSH9'', args = 0, ret = 1, sideEffects = False\<rparr>),
    (0x69, \<lparr>name = ''PUSH10'', args = 0, ret = 1, sideEffects = False\<rparr>),
    (0x6a, \<lparr>name = ''PUSH11'', args = 0, ret = 1, sideEffects = False\<rparr>),
    (0x6b, \<lparr>name = ''PUSH12'', args = 0, ret = 1, sideEffects = False\<rparr>),
    (0x6c, \<lparr>name = ''PUSH13'', args = 0, ret = 1, sideEffects = False\<rparr>),
    (0x6d, \<lparr>name = ''PUSH14'', args = 0, ret = 1, sideEffects = False\<rparr>),
    (0x6e, \<lparr>name = ''PUSH15'', args = 0, ret = 1, sideEffects = False\<rparr>),
    (0x6f, \<lparr>name = ''PUSH16'', args = 0, ret = 1, sideEffects = False\<rparr>),
    (0x70, \<lparr>name = ''PUSH17'', args = 0, ret = 1, sideEffects = False\<rparr>),
    (0x71, \<lparr>name = ''PUSH18'', args = 0, ret = 1, sideEffects = False\<rparr>),
    (0x72, \<lparr>name = ''PUSH19'', args = 0, ret = 1, sideEffects = False\<rparr>),
    (0x73, \<lparr>name = ''PUSH20'', args = 0, ret = 1, sideEffects = False\<rparr>),
    (0x74, \<lparr>name = ''PUSH21'', args = 0, ret = 1, sideEffects = False\<rparr>),
    (0x75, \<lparr>name = ''PUSH22'', args = 0, ret = 1, sideEffects = False\<rparr>),
    (0x76, \<lparr>name = ''PUSH23'', args = 0, ret = 1, sideEffects = False\<rparr>),
    (0x77, \<lparr>name = ''PUSH24'', args = 0, ret = 1, sideEffects = False\<rparr>),
    (0x78, \<lparr>name = ''PUSH25'', args = 0, ret = 1, sideEffects = False\<rparr>),
    (0x79, \<lparr>name = ''PUSH26'', args = 0, ret = 1, sideEffects = False\<rparr>),
    (0x7a, \<lparr>name = ''PUSH27'', args = 0, ret = 1, sideEffects = False\<rparr>),
    (0x7b, \<lparr>name = ''PUSH28'', args = 0, ret = 1, sideEffects = False\<rparr>),
    (0x7c, \<lparr>name = ''PUSH29'', args = 0, ret = 1, sideEffects = False\<rparr>),
    (0x7d, \<lparr>name = ''PUSH30'', args = 0, ret = 1, sideEffects = False\<rparr>),
    (0x7e, \<lparr>name = ''PUSH31'', args = 0, ret = 1, sideEffects = False\<rparr>),
    (0x7f, \<lparr>name = ''PUSH32'', args = 0, ret = 1, sideEffects = False\<rparr>),
    (0x80, \<lparr>name = ''DUP1'', args = 1, ret = 2, sideEffects = False\<rparr>),
    (0x81, \<lparr>name = ''DUP2'', args = 2, ret = 3, sideEffects = False\<rparr>),
    (0x82, \<lparr>name = ''DUP3'', args = 3, ret = 4, sideEffects = False\<rparr>),
    (0x83, \<lparr>name = ''DUP4'', args = 4, ret = 5, sideEffects = False\<rparr>),
    (0x84, \<lparr>name = ''DUP5'', args = 5, ret = 6, sideEffects = False\<rparr>),
    (0x85, \<lparr>name = ''DUP6'', args = 6, ret = 7, sideEffects = False\<rparr>),
    (0x86, \<lparr>name = ''DUP7'', args = 7, ret = 8, sideEffects = False\<rparr>),
    (0x87, \<lparr>name = ''DUP8'', args = 8, ret = 9, sideEffects = False\<rparr>),
    (0x88, \<lparr>name = ''DUP9'', args = 9, ret = 10, sideEffects = False\<rparr>),
    (0x89, \<lparr>name = ''DUP10'', args = 10, ret = 11, sideEffects = False\<rparr>),
    (0x8a, \<lparr>name = ''DUP11'', args = 11, ret = 12, sideEffects = False\<rparr>),
    (0x8b, \<lparr>name = ''DUP12'', args = 12, ret = 13, sideEffects = False\<rparr>),
    (0x8c, \<lparr>name = ''DUP13'', args = 13, ret = 14, sideEffects = False\<rparr>),
    (0x8d, \<lparr>name = ''DUP14'', args = 14, ret = 15, sideEffects = False\<rparr>),
    (0x8e, \<lparr>name = ''DUP15'', args = 15, ret = 16, sideEffects = False\<rparr>),
    (0x8f, \<lparr>name = ''DUP16'', args = 16, ret = 17, sideEffects = False\<rparr>),
    (0x90, \<lparr>name = ''SWAP1'', args = 2, ret = 2, sideEffects = False\<rparr>),
    (0x91, \<lparr>name = ''SWAP2'', args = 3, ret = 3, sideEffects = False\<rparr>),
    (0x92, \<lparr>name = ''SWAP3'', args = 4, ret = 4, sideEffects = False\<rparr>),
    (0x93, \<lparr>name = ''SWAP4'', args = 5, ret = 5, sideEffects = False\<rparr>),
    (0x94, \<lparr>name = ''SWAP5'', args = 6, ret = 6, sideEffects = False\<rparr>),
    (0x95, \<lparr>name = ''SWAP6'', args = 7, ret = 7, sideEffects = False\<rparr>),
    (0x96, \<lparr>name = ''SWAP7'', args = 8, ret = 8, sideEffects = False\<rparr>),
    (0x97, \<lparr>name = ''SWAP8'', args = 9, ret = 9, sideEffects = False\<rparr>),
    (0x98, \<lparr>name = ''SWAP9'', args = 10, ret = 10, sideEffects = False\<rparr>),
    (0x99, \<lparr>name = ''SWAP10'', args = 11, ret = 11, sideEffects = False\<rparr>),
    (0x9a, \<lparr>name = ''SWAP11'', args = 12, ret = 12, sideEffects = False\<rparr>),
    (0x9b, \<lparr>name = ''SWAP12'', args = 13, ret = 13, sideEffects = False\<rparr>),
    (0x9c, \<lparr>name = ''SWAP13'', args = 14, ret = 14, sideEffects = False\<rparr>),
    (0x9d, \<lparr>name = ''SWAP14'', args = 15, ret = 15, sideEffects = False\<rparr>),
    (0x9e, \<lparr>name = ''SWAP15'', args = 16, ret = 16, sideEffects = False\<rparr>),
    (0x9f, \<lparr>name = ''SWAP16'', args = 17, ret = 17, sideEffects = False\<rparr>),
    (0xa0, \<lparr>name = ''LOG0'', args = 2, ret = 0, sideEffects = True\<rparr>),
    (0xa1, \<lparr>name = ''LOG1'', args = 3, ret = 0, sideEffects = True\<rparr>),
    (0xa2, \<lparr>name = ''LOG2'', args = 4, ret = 0, sideEffects = True\<rparr>),
    (0xa3, \<lparr>name = ''LOG3'', args = 5, ret = 0, sideEffects = True\<rparr>),
    (0xa4, \<lparr>name = ''LOG4'', args = 6, ret = 0, sideEffects = True\<rparr>),
    (0xf0, \<lparr>name = ''CREATE'', args = 3, ret = 1, sideEffects = True\<rparr>),
    (0xf1, \<lparr>name = ''CALL'', args = 7, ret = 1, sideEffects = True\<rparr>),
    (0xf2, \<lparr>name = ''CALLCODE'', args = 7, ret = 1, sideEffects = True\<rparr>),
    (0xf3, \<lparr>name = ''RETURN'', args = 2, ret = 0, sideEffects = True\<rparr>),
    (0xf4, \<lparr>name = ''DELEGATECALL'', args = 6, ret = 1, sideEffects = True\<rparr>),
    (0xf5, \<lparr>name = ''CREATE2'', args = 4, ret = 1, sideEffects = True\<rparr>),
    (0xfa, \<lparr>name = ''STATICCALL'', args = 6, ret = 1, sideEffects = True\<rparr>),
    (0xfd, \<lparr>name = ''REVERT'', args = 2, ret = 0, sideEffects = True\<rparr>),
    (0xfe, \<lparr>name = ''INVALID'', args = 0, ret = 0, sideEffects = True\<rparr>),
    (0xff, \<lparr>name = ''SELFDESTRUCT'', args = 1, ret = 0, sideEffects = True\<rparr>)
  ]"

definition instructionInfo :: "Instruction \<Rightarrow> InstructionInfo" where
  "instructionInfo inst =
     (case map_of c_instructionInfo inst of
        Some info \<Rightarrow> info
      | None \<Rightarrow> \<lparr>name = ''<INVALID_INSTRUCTION>'', args = 0, ret = 0, sideEffects = False\<rparr>)"

section \<open>Semantic information (libevmasm/SemanticInformation.cpp)\<close>

text \<open>
  The predicates read the instruction table only through \<open>instructionInfo\<close>; they take the
  table as a parameter, so what is proved of them holds for every table.
\<close>

definition movable :: "(Instruction \<Rightarrow> InstructionInfo) \<Rightarrow> Instruction \<Rightarrow> bool" where
  "movable info instruction =
     (if isDupInstruction instruction \<or> isSwapInstruction instruction then False
      else if sideEffects (info instruction) then False
      else if instruction = KECCAK256 \<or> instruction = BALANCE \<or> instruction = SELFBALANCE
           \<or> instruction = EXTCODESIZE \<or> instruction = EXTCODEHASH
           \<or> instruction = RETURNDATASIZE \<or> instruction = SLOAD \<or> instruction = PC
           \<or> instruction = MSIZE \<or> instruction = GAS
      then False
      else True)"

definition canBeRemoved :: "(Instruction \<Rightarrow> InstructionInfo) \<Rightarrow> Instruction \<Rightarrow> error + bool" where
  "canBeRemoved info instruction =
     (if \<not> (\<not> isDupInstruction instruction \<and> \<not> isSwapInstruction instruction)
      then Inl AssemblyException
      else Inr (\<not> sideEffects (info instruction)))"

definition canBeRemovedIfNoMSize :: "(Instruction \<Rightarrow> InstructionInfo) \<Rightarrow> Instruction \<Rightarrow> error + bool" where
  "canBeRemovedIfNoMSize info instruction =
     (if instruction = KECCAK256 \<or> instruction = MLOAD then Inr True
      else canBeRemoved info instruction)"

section \<open>The solver portfolio (libsmtutil/SMTPortfolio.cpp)\<close>

datatype CheckResult = SATISFIABLE | UNSATISFIABLE | UNKNOWN | CONFLICTING | ERROR

definition solverAnswered :: "CheckResult \<Rightarrow> bool" where
  "solverAnswered result = (result = SATISFIABLE \<or> result = UNSATISFIABLE)"

text \<open>
  The loop of \<open>SMTPortfolio::check\<close> over \<open>m_solvers\<close>. Each solver is given by the pair
  it returns for the query; \<open>lastResult\<close> and \<open>finalValues\<close> are the two locals of the C++
  function, and the \<open>break\<close> leaves the loop with the values collected so far.
\<close>

fun check_loop ::
  "(CheckResult \<times> string list) list \<Rightarrow> CheckResult \<Rightarrow> string list \<Rightarrow> CheckResult \<times> string list"
where
  "check_loop [] lastResult finalValues = (lastResult, finalValues)"
| "check_loop ((result, values) # solvers) lastResult finalValues =
     (if solverAnswered result then
        (if \<not> solverAnswered lastResult then check_loop solvers result values
         else if lastResult \<noteq> result then (CONFLICTING, finalValues)
         else check_loop solvers lastResult finalValues)
      else if result = UNKNOWN \<and> lastResult = ERROR then check_loop solvers result finalValues
      else check_loop solvers lastResult finalValues)"

definition check :: "(CheckResult \<times> string list) list \<Rightarrow> CheckResult \<times> string list" where
  "check m_solvers = check_loop m_solvers ERROR []"

text \<open>Two solvers answered the query and their answers differ.\<close>

definition disagree :: "(CheckResult \<times> string list) list \<Rightarrow> bool" where
  "disagree m_solvers =
     (\<exists>s \<in> set m_solvers. \<exists>t \<in> set m_solvers.
        solverAnswered (fst s) \<and> solverAnswered (fst t) \<and> fst s \<noteq> fst t)"

section \<open>Assembly items (libevmasm/AssemblyItem.h)\<close>

datatype AssemblyItemType =
    UndefinedItem
  | Operation
  | Push
  | PushString
  | PushTag
  | PushSub
  | PushSubSize
  | PushProgramSize
  | Tag
  | PushData
  | PushLibraryAddress
  | PushDeployTimeAddress
  | PushImmutable
  | AssignImmutable

datatype JumpType = Ordinary | IntoFunction | OutOfFunction

text \<open>
  \<open>class AssemblyItem\<close>: the item type, the instruction (read only when the type is
  \<open>Operation\<close>), the \<open>u256\<close> payload (a natural number below \<open>2 ^ 256\<close>) and the jump-type
  annotation. The source location is not modelled.
\<close>

record AssemblyItem =
  m_type :: AssemblyItemType
  m_instruction :: Instruction
  m_data :: nat
  m_jumpType :: JumpType

text \<open>The two constructors: from an instruction, and from a type with a payload.\<close>

definition AssemblyItem_Instruction :: "Instruction \<Rightarrow> AssemblyItem" where
  "AssemblyItem_Instruction i =
     \<lparr>m_type = Operation, m_instruction = i, m_data = 0, m_jumpType = Ordinary\<rparr>"

definition AssemblyItem_Type :: "AssemblyItemType \<Rightarrow> nat \<Rightarrow> AssemblyItem" where
  "AssemblyItem_Type t d =
     (if t = Operation then AssemblyItem_Instruction (of_nat d)
      else \<lparr>m_type = t, m_instruction = 0, m_data = d, m_jumpType = Ordinary\<rparr>)"

definition setJumpType :: "JumpType \<Rightarrow> AssemblyItem \<Rightarrow> AssemblyItem" where
  "setJumpType jumpType item = item\<lparr>m_jumpType := jumpType\<rparr>"

text \<open>\<open>numeric_limits<size_t>::max()\<close> on the 64-bit targets of the compiler.\<close>

definition size_t_max :: nat where
  "size_t_max = 2 ^ 64 - 1"

text \<open>
  Modelled from the spec: the accessors of libevmasm/AssemblyItem.h and AssemblyItem.cpp are
  not among the sources. The spec has a push-tag reference "encoded as an (owner, tag)
  pair"; \<open>JumpdestRemover::optimise\<close> takes the owner \<open>size_t\<close> maximum for the sequence's own
  scope. The pair is packed into the payload: the tag id in the low 64 bits, the owner plus
  one above them, so that a payload below \<open>2 ^ 64\<close> has the owner \<open>size_t_max\<close>. \<open>data\<close> is
  refused for an operation, \<open>splitForeignPushTag\<close>, \<open>tag\<close> and \<open>pushTag\<close> for an item that is
  neither a tag nor a push-tag, each by an \<open>assertThrow\<close>. \<open>ownerId\<close> is
  \<open>static_cast<size_t>((combined >> 64) - 1)\<close> and \<open>tagId\<close> is
  \<open>static_cast<size_t>(combined & 0xffffffffffffffff)\<close>.
\<close>

definition data :: "AssemblyItem \<Rightarrow> error + nat" where
  "data item = (if m_type item = Operation then Inl Exception else Inr (m_data item))"

definition ownerId :: "AssemblyItem \<Rightarrow> nat" where
  "ownerId item = (m_data item div 2 ^ 64 + 2 ^ 64 - 1) mod 2 ^ 64"

definition tagId :: "AssemblyItem \<Rightarrow> nat" where
  "tagId item = m_data item mod 2 ^ 64"

definition splitForeignPushTag :: "AssemblyItem \<Rightarrow> error + (nat \<times> nat)" where
  "splitForeignPushTag item =
     (if \<not> (m_type item = PushTag \<or> m_type item = Tag) then Inl Exception
      else Inr (ownerId item, tagId item))"

definition tag :: "AssemblyItem \<Rightarrow> error + AssemblyItem" where
  "tag item =
     (if \<not> (m_type item = PushTag \<or> m_type item = Tag) then Inl Exception
      else Inr (AssemblyItem_Type Tag (m_data item)))"

definition pushTag :: "AssemblyItem \<Rightarrow> error + AssemblyItem" where
  "pushTag item =
     (if \<not> (m_type item = PushTag \<or> m_type item = Tag) then Inl Exception
      else Inr (AssemblyItem_Type PushTag (m_data item)))"

section \<open>The jumpdest remover (libevmasm/JumpdestRemover.cpp)\<close>

text \<open>
  \<open>_items[i]\<close> on a \<open>std::vector\<close>: no bounds check in C++, so an index beyond the size is
  undefined behaviour; the model reports it as \<open>OutOfBounds\<close>.
\<close>

definition at_index :: "'a list \<Rightarrow> nat \<Rightarrow> error + 'a" where
  "at_index xs i = (if i < length xs then Inr (xs ! i) else Inl OutOfBounds)"

text \<open>
  The body of the \<open>for\<close> loop of \<open>referencedTags\<close> at index \<open>i\<close> (below the size, by the loop's
  guard): \<open>res\<close> is the set \<open>ret\<close> built so far. The writes to \<open>cerr\<close> are not modelled, the reads
  of \<open>_items\<close> they make are: \<open>_items[i+18]\<close> is printed before it is split, and
  \<open>_items[i+addedToPC]\<close> is printed last.
\<close>

definition referencedTags_step ::
  "AssemblyItem list \<Rightarrow> nat \<Rightarrow> nat \<Rightarrow> nat set \<Rightarrow> error + nat set"
where
  "referencedTags_step items subId i res =
     (let item = items ! i in
      case (if m_type item = PushTag then
              (case splitForeignPushTag item of
                 Inl e \<Rightarrow> Inl e
               | Inr subAndTag \<Rightarrow>
                   Inr (if fst subAndTag = subId then insert (snd subAndTag) res else res))
            else Inr res) of
        Inl e \<Rightarrow> Inl e
      | Inr res1 \<Rightarrow>
          if m_type item = Operation then
            if m_instruction item = PC then
              (case at_index items (i + 1) of
                 Inl e \<Rightarrow> Inl e
               | Inr following \<Rightarrow>
                   (case data following of
                      Inl e \<Rightarrow> Inl e
                    | Inr addedToPC \<Rightarrow>
                        if addedToPC = 29 then
                          (case at_index items (i + 18) of
                             Inl e \<Rightarrow> Inl e
                           | Inr target \<Rightarrow>
                               (case splitForeignPushTag target of
                                  Inl e \<Rightarrow> Inl e
                                | Inr firstJumpdestSubAndTag \<Rightarrow>
                                    (case at_index items (i + addedToPC) of
                                       Inl e \<Rightarrow> Inl e
                                     | Inr printed \<Rightarrow>
                                         Inr (insert (snd firstJumpdestSubAndTag) res1))))
                        else Inr res1))
            else Inr res1
          else Inr res1)"

function referencedTags_loop ::
  "AssemblyItem list \<Rightarrow> nat \<Rightarrow> nat \<Rightarrow> nat set \<Rightarrow> error + nat set"
where
  "referencedTags_loop items subId i res =
     (if i < length items then
        (case referencedTags_step items subId i res of
           Inl e \<Rightarrow> Inl e
         | Inr res' \<Rightarrow> referencedTags_loop items subId (i + 1) res')
      else Inr res)"
  by pat_completeness auto
termination
  by (relation "measure (\<lambda>(items, subId, i, res). length items - i)") auto

declare referencedTags_loop.simps [simp del]

definition referencedTags :: "AssemblyItem list \<Rightarrow> nat \<Rightarrow> error + nat set" where
  "referencedTags items subId = referencedTags_loop items subId 0 {}"

text \<open>
  The predicate handed to \<open>remove_if\<close> in \<open>optimise\<close>: true for an item to delete. It throws
  for a tag of another scope.
\<close>

definition isUnreferencedTag :: "nat set \<Rightarrow> AssemblyItem \<Rightarrow> error + bool" where
  "isUnreferencedTag references item =
     (if m_type item \<noteq> Tag then Inr False
      else
        (case splitForeignPushTag item of
           Inl e \<Rightarrow> Inl e
         | Inr asmIdAndTag \<Rightarrow>
             if \<not> (fst asmIdAndTag = size_t_max) then Inl OptimizerException
             else Inr (snd asmIdAndTag \<notin> references)))"

text \<open>
  \<open>std::remove_if\<close> followed by \<open>erase\<close>: the predicate is applied to every element once, in
  order; an exception of the predicate leaves the algorithm.
\<close>

fun remove_if :: "('a \<Rightarrow> error + bool) \<Rightarrow> 'a list \<Rightarrow> error + 'a list" where
  "remove_if p [] = Inr []"
| "remove_if p (x # xs) =
     (case p x of
        Inl e \<Rightarrow> Inl e
      | Inr b \<Rightarrow>
          (case remove_if p xs of
             Inl e \<Rightarrow> Inl e
           | Inr ys \<Rightarrow> Inr (if b then ys else x # ys)))"

text \<open>
  \<open>JumpdestRemover::optimise\<close>: \<open>m_items\<close> is passed in and returned with the flag.
\<close>

definition optimise :: "AssemblyItem list \<Rightarrow> nat set \<Rightarrow> error + (AssemblyItem list \<times> bool)" where
  "optimise m_items tagsReferencedFromOutside =
     (case referencedTags m_items size_t_max of
        Inl e \<Rightarrow> Inl e
      | Inr referenced \<Rightarrow>
          (let references = referenced \<union> tagsReferencedFromOutside;
               initialSize = length m_items
           in case remove_if (isUnreferencedTag references) m_items of
                Inl e \<Rightarrow> Inl e
              | Inr m_items' \<Rightarrow> Inr (m_items', length m_items' \<noteq> initialSize)))"

text \<open>
  The reference set in the spec's words, for comparison with \<open>referencedTags\<close>: "every tag
  id appearing inside a same-scope push-tag reference".
\<close>

definition spec_pushTagReferences :: "AssemblyItem list \<Rightarrow> nat \<Rightarrow> nat set" where
  "spec_pushTagReferences items subId =
     set (map tagId (filter (\<lambda>item. m_type item = PushTag \<and> ownerId item = subId) items))"

text \<open>
  The outcome in the spec's words: "delete every Tag item whose id is absent from the
  union"; every other item stays, in its place.
\<close>

definition spec_withoutTags :: "nat set \<Rightarrow> AssemblyItem list \<Rightarrow> AssemblyItem list" where
  "spec_withoutTags references items =
     filter (\<lambda>item. \<not> (m_type item = Tag \<and> tagId item \<notin> references)) items"

text \<open>
  The calling-convention idiom in the words of the remover's comment and of the spec: an
  Operation \<open>PC\<close> item at position \<open>i\<close> "followed by" an item whose data is 29. The tags
  marked through it are the tag ids of the items 18 positions after such a \<open>PC\<close>.
\<close>

definition spec_idiomAt :: "AssemblyItem list \<Rightarrow> nat \<Rightarrow> bool" where
  "spec_idiomAt items i =
     (i + 1 < length items \<and> m_type (items ! i) = Operation \<and> m_instruction (items ! i) = PC
      \<and> data (items ! (i + 1)) = Inr 29)"

definition spec_idiomTags :: "AssemblyItem list \<Rightarrow> nat set" where
  "spec_idiomTags items =
     set (map (\<lambda>i. tagId (items ! (i + 18))) (filter (spec_idiomAt items) [0..<length items]))"

text \<open>
  The reads of \<open>referencedTags\<close> at position \<open>i\<close> stay inside the sequence and meet the
  assertions of the accessors: after a \<open>PC\<close> there is an item that is no operation, and when
  its data is 29 the positions \<open>i + 18\<close> and \<open>i + 29\<close> exist and the item at \<open>i + 18\<close> is a tag or
  a push-tag. \<open>readsInRange\<close> has this at every position.
\<close>

definition readsInRangeAt :: "AssemblyItem list \<Rightarrow> nat \<Rightarrow> bool" where
  "readsInRangeAt items i =
     (m_type (items ! i) = Operation \<and> m_instruction (items ! i) = PC \<longrightarrow>
        i + 1 < length items \<and> m_type (items ! (i + 1)) \<noteq> Operation
        \<and> (m_data (items ! (i + 1)) = 29 \<longrightarrow>
             i + 29 < length items
             \<and> (m_type (items ! (i + 18)) = PushTag \<or> m_type (items ! (i + 18)) = Tag)))"

definition readsInRange :: "AssemblyItem list \<Rightarrow> bool" where
  "readsInRange items = list_all (readsInRangeAt items) [0..<length items]"

text \<open>What one round of the loop of \<open>referencedTags\<close> adds to the set, when it returns.\<close>

definition marksAt :: "AssemblyItem list \<Rightarrow> nat \<Rightarrow> nat \<Rightarrow> nat set" where
  "marksAt items subId i =
     (if m_type (items ! i) = PushTag \<and> ownerId (items ! i) = subId then {tagId (items ! i)} else {})
     \<union> (if spec_idiomAt items i then {tagId (items ! (i + 18))} else {})"

text \<open>
  A sequence of 30 items with the idiom at its head: \<open>PC\<close>, a push of 29, and 18
  positions after the \<open>PC\<close> the tag 7, which no push-tag refers to.
\<close>

definition idiom_example :: "AssemblyItem list" where
  "idiom_example =
     [AssemblyItem_Instruction PC, AssemblyItem_Type Push 29, AssemblyItem_Instruction ADD,
      AssemblyItem_Instruction JUMPI,
      AssemblyItem_Instruction RETURNDATASIZE, AssemblyItem_Type Push 1,
      AssemblyItem_Instruction MUL, AssemblyItem_Instruction POP,
      AssemblyItem_Instruction RETURNDATASIZE, AssemblyItem_Type Push 0,
      AssemblyItem_Instruction MUL, AssemblyItem_Instruction POP,
      AssemblyItem_Instruction RETURNDATASIZE, AssemblyItem_Type Push 0,
      AssemblyItem_Instruction MUL, AssemblyItem_Instruction POP,
      AssemblyItem_Instruction GAS, AssemblyItem_Instruction POP,
      AssemblyItem_Type Tag 7,
      AssemblyItem_Instruction GAS, AssemblyItem_Instruction POP,
      AssemblyItem_Instruction GAS, AssemblyItem_Instruction POP,
      AssemblyItem_Instruction GAS, AssemblyItem_Instruction POP,
      AssemblyItem_Instruction GAS, AssemblyItem_Instruction POP,
      AssemblyItem_Instruction GAS, AssemblyItem_Instruction POP,
      AssemblyItem_Instruction STOP]"

text \<open>
  A sequence of 31 items with the idiom at its head and, between the \<open>PC\<close> and the tag 7
  at 18 positions after it, the tag 5 that nothing refers to; tag 9 is pushed.
\<close>

definition shift_example :: "AssemblyItem list" where
  "shift_example =
     [AssemblyItem_Instruction PC, AssemblyItem_Type Push 29, AssemblyItem_Instruction ADD,
      AssemblyItem_Instruction JUMPI, AssemblyItem_Type Tag 5,
      AssemblyItem_Instruction RETURNDATASIZE, AssemblyItem_Type Push 1,
      AssemblyItem_Instruction MUL, AssemblyItem_Instruction POP,
      AssemblyItem_Instruction RETURNDATASIZE, AssemblyItem_Type Push 0,
      AssemblyItem_Instruction MUL, AssemblyItem_Instruction POP,
      AssemblyItem_Instruction RETURNDATASIZE, AssemblyItem_Type Push 0,
      AssemblyItem_Instruction MUL, AssemblyItem_Instruction POP,
      AssemblyItem_Instruction GAS,
      AssemblyItem_Type Tag 7, AssemblyItem_Type PushTag 9,
      AssemblyItem_Instruction JUMP,
      AssemblyItem_Instruction GAS, AssemblyItem_Instruction POP,
      AssemblyItem_Instruction GAS, AssemblyItem_Instruction POP,
      AssemblyItem_Instruction GAS, AssemblyItem_Instruction POP,
      AssemblyItem_Instruction GAS, AssemblyItem_Instruction POP,
      AssemblyItem_Type Tag 9,
      AssemblyItem_Instruction STOP]"

text \<open>A sequence without a \<open>PC\<close>: tag 1 is pushed, tags 2 and 3 are not.\<close>

definition plain_example :: "AssemblyItem list" where
  "plain_example =
     [AssemblyItem_Type PushTag 1, AssemblyItem_Instruction JUMP, AssemblyItem_Type Tag 2,
      AssemblyItem_Instruction GAS, AssemblyItem_Type Tag 1, AssemblyItem_Instruction POP,
      AssemblyItem_Type Tag 3]"

section \<open>The assembly (libevmasm/Assembly.h)\<close>

text \<open>
  \<open>class Assembly\<close>, with the members the modelled functions read or write: the tag
  counter (\<open>unsigned\<close>, guarded below \<open>0xffffffff\<close> before each increment), the items, the
  data section (content hash to bytes) and the deposit, a 32-bit \<open>int\<close> read through \<open>sint\<close>.
\<close>

record Assembly =
  m_usedTags :: nat
  m_items :: "AssemblyItem list"
  m_dataSection :: "nat \<rightharpoonup> 8 word list"
  m_deposit :: "32 word"

definition deposit :: "Assembly \<Rightarrow> 32 word" where
  "deposit a = m_deposit a"

definition adjustDeposit :: "32 word \<Rightarrow> Assembly \<Rightarrow> error + Assembly" where
  "adjustDeposit adjustment a =
     (let a' = a\<lparr>m_deposit := m_deposit a + adjustment\<rparr>
      in if 0 \<le> sint (m_deposit a') then Inr a' else Inl InvalidDeposit)"

definition setDeposit :: "32 word \<Rightarrow> Assembly \<Rightarrow> error + Assembly" where
  "setDeposit d a =
     (let a' = a\<lparr>m_deposit := d\<rparr>
      in if 0 \<le> sint (m_deposit a') then Inr a' else Inl InvalidDeposit)"

definition newTag :: "Assembly \<Rightarrow> error + (AssemblyItem \<times> Assembly)" where
  "newTag a =
     (if \<not> m_usedTags a < 0xffffffff then Inl AssemblyException
      else Inr (AssemblyItem_Type Tag (m_usedTags a), a\<lparr>m_usedTags := m_usedTags a + 1\<rparr>))"

definition newPushTag :: "Assembly \<Rightarrow> error + (AssemblyItem \<times> Assembly)" where
  "newPushTag a =
     (if \<not> m_usedTags a < 0xffffffff then Inl AssemblyException
      else Inr (AssemblyItem_Type PushTag (m_usedTags a), a\<lparr>m_usedTags := m_usedTags a + 1\<rparr>))"

text \<open>The initial state of an assembly: tag 0 is reserved, the deposit is 0.\<close>

definition Assembly_init :: Assembly where
  "Assembly_init = \<lparr>m_usedTags = 1, m_items = [], m_dataSection = Map.empty, m_deposit = 0\<rparr>"

text \<open>
  Modelled from the spec: \<open>AssemblyItem::arguments\<close>, \<open>returnValues\<close> and \<open>deposit\<close> of
  libevmasm/AssemblyItem.cpp are not among the sources. The spec has the deposit updated
  "according to the appended item's net stack effect": for an operation the results less
  the arguments of its instruction, one slot for every item that pushes, one slot less for
  an immutable assignment, nothing for a tag.
\<close>

definition arguments :: "AssemblyItem \<Rightarrow> int" where
  "arguments item =
     (if m_type item = Operation then args (instructionInfo (m_instruction item))
      else if m_type item = AssignImmutable then 1
      else 0)"

definition returnValues :: "AssemblyItem \<Rightarrow> int" where
  "returnValues item =
     (if m_type item = Operation then ret (instructionInfo (m_instruction item))
      else if m_type item = Push \<or> m_type item = PushString \<or> m_type item = PushData
            \<or> m_type item = PushTag \<or> m_type item = PushSub \<or> m_type item = PushSubSize
            \<or> m_type item = PushProgramSize \<or> m_type item = PushLibraryAddress
            \<or> m_type item = PushImmutable \<or> m_type item = PushDeployTimeAddress
      then 1
      else 0)"

definition itemDeposit :: "AssemblyItem \<Rightarrow> 32 word" where
  "itemDeposit item = word_of_int (returnValues item - arguments item)"

text \<open>
  Modelled from the spec: \<open>Assembly::append\<close> of libevmasm/Assembly.cpp is not among the
  sources. This is the append once the rewrite hook has declined the item: the deposit is
  updated by the item's net stack effect, and "deposit underflow (would go negative) is a
  fatal compiler-invariant violation"; the item is added at the end.
\<close>

definition Assembly_append :: "AssemblyItem \<Rightarrow> Assembly \<Rightarrow> error + Assembly" where
  "Assembly_append i a =
     (let d = m_deposit a + itemDeposit i
      in if sint d < 0 then Inl InvalidDeposit
         else Inr (a\<lparr>m_deposit := d, m_items := m_items a @ [i]\<rparr>))"

section \<open>The compiler context (libsolidity/codegen/CompilerContext.cpp)\<close>

text \<open>Sequencing of steps that can throw: the first failure is the result.\<close>

definition thenE :: "error + 'a \<Rightarrow> ('a \<Rightarrow> error + 'b) \<Rightarrow> error + 'b" where
  "thenE m f = (case m of Inl e \<Rightarrow> Inl e | Inr x \<Rightarrow> f x)"

text \<open>
  The Yul texts handed to the inline-assembly pipeline are read by that pipeline only; the
  model names each literal of the source instead of spelling it: \<open>callYUL\<close>, the bodies
  written in place for \<open>REVERT\<close>, \<open>CREATE\<close>, \<open>CREATE2\<close> and \<open>EXTCODECOPY\<close>, and the template of
  \<open>simpleRewrite\<close> rendered for \<open>_in\<close> and \<open>_out\<close>. The prologue \<open>asm_code\<close> of \<open>complexRewrite\<close>
  is determined by the function signature, which is passed along with the body.
\<close>

datatype YulCode =
    CallYUL
  | RevertYUL
  | CreateYUL
  | Create2YUL
  | ExtCodeCopyYUL
  | SimpleYUL int int

text \<open>
  A generator handed to the registry (\<open>function<void(CompilerContext&)>\<close>): the lambda of
  \<open>complexRewrite\<close>, which captures the signature, the code and the local variables, or any
  other closure, named by a number.
\<close>

datatype generator =
    RewriteGenerator string YulCode "string list"
  | Closure nat

text \<open>A diagnostic of the error reporter: a warning with its error id and message.\<close>

datatype Diagnostic = Warning nat string

text \<open>
  \<open>class CompilerContext\<close>, with the members the modelled functions read or write. The
  registry is \<open>m_lowLevelFunctions\<close> (name to entry tag) and the queue of entries
  \<open>(name, inArgs, outArgs, generator)\<close> still to generate.
\<close>

record CompilerContext =
  m_asm :: Assembly
  m_disable_rewrite :: bool
  m_is_building_user_asm :: bool
  m_lowLevelFunctions :: "string \<rightharpoonup> AssemblyItem"
  m_lowLevelFunctionGenerationQueue :: "(string \<times> 32 word \<times> 32 word \<times> generator) list"
  m_errorReporter :: "Diagnostic list"

definition CompilerContext_init :: CompilerContext where
  "CompilerContext_init =
     \<lparr>m_asm = Assembly_init, m_disable_rewrite = False, m_is_building_user_asm = False,
      m_lowLevelFunctions = Map.empty, m_lowLevelFunctionGenerationQueue = [],
      m_errorReporter = []\<rparr>"

text \<open>
  The collaborators whose code is outside the sources, taken as parameters:
  \<open>appendInlineAssembly\<close> (its effect on the assembly is that of the Yul parser, analyser
  and code generator), \<open>CompilerUtils::moveIntoStack\<close> and \<open>moveToStackTop\<close>, and the closures
  other than the lambda of \<open>complexRewrite\<close>.
\<close>

record Externals =
  appendInlineAssembly :: "string \<Rightarrow> YulCode \<Rightarrow> string list \<Rightarrow> CompilerContext \<Rightarrow> error + CompilerContext"
  moveIntoStack :: "32 word \<Rightarrow> CompilerContext \<Rightarrow> error + CompilerContext"
  moveToStackTop :: "32 word \<Rightarrow> CompilerContext \<Rightarrow> error + CompilerContext"
  runClosure :: "nat \<Rightarrow> CompilerContext \<Rightarrow> error + CompilerContext"

text \<open>
  \<open>*this << item\<close> and \<open>assemblyPtr()->append(item)\<close> for an item the rewrite hook declines.
  The functions below append push-tags, tags, \<open>GAS\<close>, \<open>POP\<close> and \<open>JUMP\<close> only, which the hook
  declines in either of its states (lemma \<open>append_declined\<close>).
\<close>

definition appendItem :: "AssemblyItem \<Rightarrow> CompilerContext \<Rightarrow> error + CompilerContext" where
  "appendItem i c = thenE (Assembly_append i (m_asm c)) (\<lambda>a. Inr (c\<lparr>m_asm := a\<rparr>))"

text \<open>
  The inline members of CompilerContext.h (not among the sources) that hand over to the
  assembly: \<open>stackHeight\<close> asserts a deposit of at least 0 and returns it as \<open>unsigned\<close>.
\<close>

definition stackHeight :: "CompilerContext \<Rightarrow> error + 32 word" where
  "stackHeight c =
     (if \<not> 0 \<le> sint (deposit (m_asm c)) then Inl InternalCompilerError
      else Inr (deposit (m_asm c)))"

definition adjustStackOffset :: "32 word \<Rightarrow> CompilerContext \<Rightarrow> error + CompilerContext" where
  "adjustStackOffset adjustment c =
     thenE (adjustDeposit adjustment (m_asm c)) (\<lambda>a. Inr (c\<lparr>m_asm := a\<rparr>))"

definition setStackOffset :: "32 word \<Rightarrow> CompilerContext \<Rightarrow> error + CompilerContext" where
  "setStackOffset offset c =
     thenE (setDeposit offset (m_asm c)) (\<lambda>a. Inr (c\<lparr>m_asm := a\<rparr>))"

definition pushNewTag :: "CompilerContext \<Rightarrow> error + (AssemblyItem \<times> CompilerContext)" where
  "pushNewTag c =
     thenE (newPushTag (m_asm c)) (\<lambda>(pushed, a).
     thenE (appendItem pushed (c\<lparr>m_asm := a\<rparr>)) (\<lambda>c'.
     thenE (tag pushed) (\<lambda>t. Inr (t, c'))))"

definition appendJump :: "JumpType \<Rightarrow> CompilerContext \<Rightarrow> error + CompilerContext" where
  "appendJump jumpType c = appendItem (setJumpType jumpType (AssemblyItem_Instruction JUMP)) c"

text \<open>The registry: \<open>lowLevelFunctionTag\<close> returns the entry tag with the new context.\<close>

definition lowLevelFunctionTag ::
  "string \<Rightarrow> 32 word \<Rightarrow> 32 word \<Rightarrow> generator \<Rightarrow> CompilerContext
     \<Rightarrow> error + (AssemblyItem \<times> CompilerContext)"
where
  "lowLevelFunctionTag fname inArgs outArgs gen c =
     (case m_lowLevelFunctions c fname of
        None \<Rightarrow>
          thenE (newTag (m_asm c)) (\<lambda>(fresh, a).
          thenE (pushTag fresh) (\<lambda>entry.
            Inr (entry,
                 c\<lparr>m_asm := a,
                   m_lowLevelFunctions := (m_lowLevelFunctions c)(fname \<mapsto> entry),
                   m_lowLevelFunctionGenerationQueue :=
                     m_lowLevelFunctionGenerationQueue c @ [(fname, inArgs, outArgs, gen)]\<rparr>)))
      | Some entry \<Rightarrow> Inr (entry, c))"

definition callLowLevelFunction ::
  "Externals \<Rightarrow> string \<Rightarrow> 32 word \<Rightarrow> 32 word \<Rightarrow> generator \<Rightarrow> CompilerContext
     \<Rightarrow> error + CompilerContext"
where
  "callLowLevelFunction X fname inArgs outArgs gen c =
     thenE (pushNewTag c) (\<lambda>(retTag, c1).
     thenE (moveIntoStack X inArgs c1) (\<lambda>c2.
     thenE (lowLevelFunctionTag fname inArgs outArgs gen c2) (\<lambda>(entry, c3).
     thenE (appendItem entry c3) (\<lambda>c4.
     thenE (appendJump IntoFunction c4) (\<lambda>c5.
     thenE (adjustStackOffset (outArgs - 1 - inArgs) c5) (\<lambda>c6.
     thenE (tag retTag) (\<lambda>t. appendItem t c6)))))))"

text \<open>The two \<open>for\<close> loops of \<open>complexRewrite\<close>: the same item appended \<open>n\<close> times.\<close>

fun appendTimes :: "nat \<Rightarrow> AssemblyItem \<Rightarrow> CompilerContext \<Rightarrow> error + CompilerContext" where
  "appendTimes 0 i c = Inr c"
| "appendTimes (Suc n) i c = thenE (appendItem i c) (appendTimes n i)"

text \<open>
  \<open>complexRewrite\<close>. The arities are C++ \<open>int\<close>s, here integers (every call passes constants
  from 0 to 7); a loop \<open>for (int i = 0; i < n; i++)\<close> runs \<open>nat n\<close> times.
\<close>

definition complexRewrite ::
  "Externals \<Rightarrow> string \<Rightarrow> int \<Rightarrow> int \<Rightarrow> YulCode \<Rightarrow> string list \<Rightarrow> bool \<Rightarrow> CompilerContext
     \<Rightarrow> error + CompilerContext"
where
  "complexRewrite X function in_arity out_arity code localVariables optimize c =
     thenE (appendTimes (nat (out_arity - in_arity)) (AssemblyItem_Instruction GAS) c) (\<lambda>c1.
     thenE (if optimize
            then callLowLevelFunction X function 0 0
                   (RewriteGenerator function code localVariables) c1
            else appendInlineAssembly X function code localVariables c1) (\<lambda>c2.
     appendTimes (nat (in_arity - out_arity)) (AssemblyItem_Instruction POP) c2))"

definition simpleRewrite ::
  "Externals \<Rightarrow> string \<Rightarrow> int \<Rightarrow> int \<Rightarrow> bool \<Rightarrow> CompilerContext \<Rightarrow> error + CompilerContext"
where
  "simpleRewrite X function in_arity out_arity optimize c =
     (if \<not> in_arity \<le> 2 then Inl AssertionFailed
      else if \<not> out_arity \<le> 1 then Inl AssertionFailed
      else complexRewrite X function in_arity out_arity (SimpleYUL in_arity out_arity)
             [''x2'', ''x1''] optimize c)"

text \<open>\<open>m_errorReporter.warning(id, location, message)\<close>; the location is not modelled.\<close>

definition warning :: "nat \<Rightarrow> string \<Rightarrow> CompilerContext \<Rightarrow> CompilerContext" where
  "warning errorId message c = c\<lparr>m_errorReporter := m_errorReporter c @ [Warning errorId message]\<rparr>"

text \<open>
  The \<open>switch\<close> of \<open>appendCallback\<close> over the instruction of an operation: the value of \<open>ret\<close>
  at its end, with the context.
\<close>

definition rewriteOperation ::
  "Externals \<Rightarrow> Instruction \<Rightarrow> CompilerContext \<Rightarrow> error + (bool \<times> CompilerContext)"
where
  "rewriteOperation X instruction c =
     (let replaced = (\<lambda>r. thenE r (\<lambda>c'. Inr (True, c'))) in
      if instruction = SELFBALANCE \<or> instruction = BALANCE then
        Inr (False,
             warning 1633
               (''OVM: '' @ name (instructionInfo instruction)
                @ '' is not implemented in the OVM. (We have no native ETH -- use deposited WETH instead!)'')
               c)
      else if instruction = BLOCKHASH \<or> instruction = CALLCODE \<or> instruction = COINBASE
            \<or> instruction = DIFFICULTY \<or> instruction = GASPRICE \<or> instruction = ORIGIN
            \<or> instruction = SELFDESTRUCT then
        Inr (False,
             warning 6388
               (''OVM: '' @ name (instructionInfo instruction) @ '' is not implemented in the OVM.'')
               c)
      else if instruction = SSTORE then
        replaced (simpleRewrite X ''ovmSSTORE(bytes32,bytes32)'' 2 0 True c)
      else if instruction = SLOAD then
        replaced (simpleRewrite X ''ovmSLOAD(bytes32)'' 1 1 True c)
      else if instruction = EXTCODESIZE then
        replaced (simpleRewrite X ''ovmEXTCODESIZE(address)'' 1 1 True c)
      else if instruction = EXTCODEHASH then
        replaced (simpleRewrite X ''ovmEXTCODEHASH(address)'' 1 1 True c)
      else if instruction = CALLER then
        replaced (simpleRewrite X ''ovmCALLER()'' 0 1 True c)
      else if instruction = ADDRESS then
        replaced (simpleRewrite X ''ovmADDRESS()'' 0 1 False c)
      else if instruction = TIMESTAMP then
        replaced (simpleRewrite X ''ovmTIMESTAMP()'' 0 1 True c)
      else if instruction = NUMBER then
        replaced (simpleRewrite X ''ovmNUMBER()'' 0 1 True c)
      else if instruction = CHAINID then
        replaced (simpleRewrite X ''ovmCHAINID()'' 0 1 True c)
      else if instruction = GASLIMIT then
        replaced (simpleRewrite X ''ovmGASLIMIT()'' 0 1 True c)
      else if instruction = CALL then
        replaced (complexRewrite X ''ovmCALL(uint256,address,bytes)'' 7 1 CallYUL
          [''retLength'', ''retOffset'', ''argsLength'', ''argsOffset'', ''value'', ''addr'', ''in_gas'']
          True c)
      else if instruction = STATICCALL then
        replaced (complexRewrite X ''ovmSTATICCALL(uint256,address,bytes)'' 6 1 CallYUL
          [''retLength'', ''retOffset'', ''argsLength'', ''argsOffset'', ''addr'', ''in_gas'']
          True c)
      else if instruction = DELEGATECALL then
        replaced (complexRewrite X ''ovmDELEGATECALL(uint256,address,bytes)'' 6 1 CallYUL
          [''retLength'', ''retOffset'', ''argsLength'', ''argsOffset'', ''addr'', ''in_gas'']
          True c)
      else if instruction = REVERT then
        replaced (complexRewrite X ''ovmREVERT(bytes)'' 2 0 RevertYUL [''length'', ''offset''] True c)
      else if instruction = CREATE then
        replaced (complexRewrite X ''ovmCREATE(bytes)'' 3 1 CreateYUL
          [''length'', ''offset'', ''value''] True c)
      else if instruction = CREATE2 then
        replaced (complexRewrite X ''ovmCREATE2(bytes,bytes32)'' 4 1 Create2YUL
          [''salt'', ''length'', ''offset'', ''value''] True c)
      else if instruction = EXTCODECOPY then
        replaced (complexRewrite X ''ovmEXTCODECOPY(address,uint256,uint256)'' 4 0 ExtCodeCopyYUL
          [''length'', ''offset'', ''destOffset'', ''addr''] True c)
      else if instruction = RETURNDATACOPY \<or> instruction = RETURNDATASIZE then
        Inr (False,
             if m_is_building_user_asm c
             then warning 7742
                    ''OVM: Using RETURNDATASIZE or RETURNDATACOPY in user asm isn't guaranteed to work'' c
             else c)
      else Inr (False, c))"

text \<open>
  \<open>appendCallback\<close>: the hook. It returns false at once while rewriting is disabled; else it
  disables rewriting, warns of a \<open>JUMPDEST\<close> byte in pushed data (\<open>Assembly::data\<close> is
  \<open>m_data.at\<close>), runs the \<open>switch\<close> for an operation, enables rewriting again and returns
  \<open>ret\<close>. An exception on the way leaves the function before the flag is reset.
\<close>

definition appendCallback ::
  "Externals \<Rightarrow> AssemblyItem \<Rightarrow> CompilerContext \<Rightarrow> error + (bool \<times> CompilerContext)"
where
  "appendCallback X i c =
     (if m_disable_rewrite c then Inr (False, c)
      else
        (let c1 = c\<lparr>m_disable_rewrite := True\<rparr> in
         thenE (if m_type i = PushData then
                  thenE (data i) (\<lambda>h.
                    case m_dataSection (m_asm c1) h of
                      None \<Rightarrow> Inl OutOfRange
                    | Some dat \<Rightarrow>
                        Inr (if 0x5b \<in> set dat
                             then warning 7608 ''OVM: JUMPDEST found in constant'' c1
                             else c1))
                else Inr c1) (\<lambda>c2.
         thenE (if m_type i = Operation then rewriteOperation X (m_instruction i) c2
                else Inr (False, c2)) (\<lambda>(res, c3).
         Inr (res, c3\<lparr>m_disable_rewrite := False\<rparr>)))))"

text \<open>
  Modelled from the spec: the head of \<open>Assembly::append\<close> (libevmasm/Assembly.cpp, not among
  the sources), which must "invoke a caller-supplied rewrite hook before inserting,
  allowing substitution". The hook's result says whether it replaced the item (\<open>ret\<close> is
  "set to false again if we don't change the instruction"): on true the item itself is not
  inserted, on false the append goes on.
\<close>

definition append :: "Externals \<Rightarrow> AssemblyItem \<Rightarrow> CompilerContext \<Rightarrow> error + CompilerContext" where
  "append X i c =
     thenE (appendCallback X i c) (\<lambda>(replaced, c').
       if replaced then Inr c' else appendItem i c')"

text \<open>
  Running a generator: the lambda of \<open>complexRewrite\<close> adds \<open>ret\<close> to the local variables,
  disables rewriting around \<open>appendInlineAssembly\<close> and enables it after.
\<close>

definition runGenerator :: "Externals \<Rightarrow> generator \<Rightarrow> CompilerContext \<Rightarrow> error + CompilerContext" where
  "runGenerator X gen c =
     (case gen of
        RewriteGenerator function code localVariables \<Rightarrow>
          thenE (appendInlineAssembly X function code (localVariables @ [''ret''])
                   (c\<lparr>m_disable_rewrite := True\<rparr>))
            (\<lambda>c'. Inr (c'\<lparr>m_disable_rewrite := False\<rparr>))
      | Closure k \<Rightarrow> runClosure X k c)"

text \<open>
  The body of the \<open>while\<close> loop of \<open>appendMissingLowLevelFunctions\<close> for the entry popped
  from the queue.
\<close>

definition materialize ::
  "Externals \<Rightarrow> string \<times> 32 word \<times> 32 word \<times> generator \<Rightarrow> CompilerContext
     \<Rightarrow> error + CompilerContext"
where
  "materialize X entry c =
     (case entry of (fname, inArgs, outArgs, gen) \<Rightarrow>
        thenE (setStackOffset (inArgs + 1) c) (\<lambda>c1.
        thenE (case m_lowLevelFunctions c1 fname of
                 None \<Rightarrow> Inl OutOfRange
               | Some entryTag \<Rightarrow> tag entryTag) (\<lambda>t.
        thenE (appendItem t c1) (\<lambda>c2.
        thenE (runGenerator X gen c2) (\<lambda>c3.
        thenE (moveToStackTop X outArgs c3) (\<lambda>c4.
        thenE (appendJump OutOfFunction c4) (\<lambda>c5.
        thenE (stackHeight c5) (\<lambda>height.
          if \<not> height = outArgs then Inl InternalCompilerError else Inr c5))))))))"

text \<open>
  \<open>appendMissingLowLevelFunctions\<close>. A generator may request further helpers, so the loop
  need not end: it runs on fuel, one unit for each entry popped. Beside the context the
  model returns the entries whose body was generated, in order (the C++ function returns
  nothing).
\<close>

fun appendMissingLowLevelFunctions ::
  "Externals \<Rightarrow> nat \<Rightarrow> CompilerContext
     \<Rightarrow> error + ((string \<times> 32 word \<times> 32 word \<times> generator) list \<times> CompilerContext)"
where
  "appendMissingLowLevelFunctions X 0 c =
     (if m_lowLevelFunctionGenerationQueue c = [] then Inr ([], c) else Inl OutOfFuel)"
| "appendMissingLowLevelFunctions X (Suc fuel) c =
     (case m_lowLevelFunctionGenerationQueue c of
        [] \<Rightarrow> Inr ([], c)
      | entry # queue \<Rightarrow>
          thenE (materialize X entry (c\<lparr>m_lowLevelFunctionGenerationQueue := queue\<rparr>)) (\<lambda>c'.
          thenE (appendMissingLowLevelFunctions X fuel c') (\<lambda>(generated, c'').
            Inr (entry # generated, c''))))"

text \<open>
  The first rounds of the \<open>while\<close> loop of \<open>appendMissingLowLevelFunctions\<close>, written out for
  a list of entries: each round pops the front of the queue, which is the entry given for
  it, and materializes it. It says where in a drain a body is generated, and it runs on no
  fuel.
\<close>

fun rounds ::
  "Externals \<Rightarrow> (string \<times> 32 word \<times> 32 word \<times> generator) list \<Rightarrow> CompilerContext
     \<Rightarrow> error + CompilerContext"
where
  "rounds X [] c = Inr c"
| "rounds X (entry # entries) c =
     (case m_lowLevelFunctionGenerationQueue c of
        [] \<Rightarrow> Inl OutOfRange
      | front # queue \<Rightarrow>
          if front \<noteq> entry then Inl OutOfRange
          else thenE (materialize X entry (c\<lparr>m_lowLevelFunctionGenerationQueue := queue\<rparr>))
                 (rounds X entries))"

text \<open>\<open>lowLevelFunctionTag\<close> called once for each request, in order, with the tags returned.\<close>

fun lowLevelFunctionTags ::
  "string \<Rightarrow> (32 word \<times> 32 word \<times> generator) list \<Rightarrow> CompilerContext
     \<Rightarrow> error + (AssemblyItem list \<times> CompilerContext)"
where
  "lowLevelFunctionTags fname [] c = Inr ([], c)"
| "lowLevelFunctionTags fname ((inArgs, outArgs, gen) # requests) c =
     thenE (lowLevelFunctionTag fname inArgs outArgs gen c) (\<lambda>(entry, c').
     thenE (lowLevelFunctionTags fname requests c') (\<lambda>(entries, c'').
       Inr (entry # entries, c'')))"

text \<open>
  What is assumed of the collaborators. They leave the stack height as they found it
  (\<open>moveIntoStack\<close> rearranges slots, an inline-assembly block is balanced), and they reach
  the registry through \<open>lowLevelFunctionTag\<close> only, whose members are private: an entry tag
  once given stays, a new entry tag is a push-tag, and the queue grows at its end by
  entries for names not registered before.
\<close>

definition stackNeutral :: "Externals \<Rightarrow> bool" where
  "stackNeutral X =
     ((\<forall>function code localVariables c c'.
         appendInlineAssembly X function code localVariables c = Inr c'
           \<longrightarrow> m_deposit (m_asm c') = m_deposit (m_asm c))
      \<and> (\<forall>n c c'. moveIntoStack X n c = Inr c' \<longrightarrow> m_deposit (m_asm c') = m_deposit (m_asm c)))"

definition registryGrows :: "CompilerContext \<Rightarrow> CompilerContext \<Rightarrow> bool" where
  "registryGrows c c' =
     ((\<forall>fname entry. m_lowLevelFunctions c fname = Some entry
          \<longrightarrow> m_lowLevelFunctions c' fname = Some entry)
      \<and> (\<forall>fname entry. m_lowLevelFunctions c' fname = Some entry
          \<longrightarrow> m_lowLevelFunctions c fname = Some entry \<or> m_type entry = PushTag)
      \<and> (\<exists>added. m_lowLevelFunctionGenerationQueue c' = m_lowLevelFunctionGenerationQueue c @ added
            \<and> (\<forall>e \<in> set added. m_lowLevelFunctions c (fst e) = None)))"

text \<open>The entry tags of the registry are push-tag items, as \<open>lowLevelFunctionTag\<close> makes them.\<close>

definition entriesArePushTags :: "CompilerContext \<Rightarrow> bool" where
  "entriesArePushTags c =
     (\<forall>fname entry. m_lowLevelFunctions c fname = Some entry \<longrightarrow> m_type entry = PushTag)"

text \<open>
  The opcodes of the two cases of the \<open>switch\<close> that warn "is not implemented in the OVM".
\<close>

definition forbidden :: "Instruction \<Rightarrow> bool" where
  "forbidden instruction =
     (instruction = SELFBALANCE \<or> instruction = BALANCE \<or> instruction = BLOCKHASH
      \<or> instruction = CALLCODE \<or> instruction = COINBASE \<or> instruction = DIFFICULTY
      \<or> instruction = GASPRICE \<or> instruction = ORIGIN \<or> instruction = SELFDESTRUCT)"

definition registryFrame :: "Externals \<Rightarrow> bool" where
  "registryFrame X =
     ((\<forall>function code localVariables c c'.
         appendInlineAssembly X function code localVariables c = Inr c' \<longrightarrow> registryGrows c c')
      \<and> (\<forall>n c c'. moveIntoStack X n c = Inr c' \<longrightarrow> registryGrows c c')
      \<and> (\<forall>n c c'. moveToStackTop X n c = Inr c' \<longrightarrow> registryGrows c c')
      \<and> (\<forall>k c c'. runClosure X k c = Inr c' \<longrightarrow> registryGrows c c'))"

text \<open>
  Collaborators for the examples: inline assembly that emits nothing, stack moves of no
  slots, and closures that emit nothing, except closure 7, which requests the helper
  \<open>ovmCALLER()\<close> again from inside a body.
\<close>

definition exampleExternals :: Externals where
  "exampleExternals =
     \<lparr>appendInlineAssembly = (\<lambda>function code localVariables c. Inr c),
      moveIntoStack = (\<lambda>n c. Inr c),
      moveToStackTop = (\<lambda>n c. Inr c),
      runClosure = (\<lambda>k c.
        if k = 7 then thenE (lowLevelFunctionTag ''ovmCALLER()'' 0 1 (Closure 8) c) (\<lambda>(entry, c'). Inr c')
        else Inr c)\<rparr>"

text \<open>
  Collaborators whose closures leave a mark: closure \<open>k\<close> pushes the constant \<open>k\<close>, and
  closure 7 first requests the helper \<open>ovmCALLER()\<close> again.
\<close>

definition pushingExternals :: Externals where
  "pushingExternals =
     \<lparr>appendInlineAssembly = (\<lambda>function code localVariables c. Inr c),
      moveIntoStack = (\<lambda>n c. Inr c),
      moveToStackTop = (\<lambda>n c. Inr c),
      runClosure = (\<lambda>k c.
        thenE (if k = 7
               then thenE (lowLevelFunctionTag ''ovmCALLER()'' 0 1 (Closure 8) c)
                      (\<lambda>(entry, c'). Inr c')
               else Inr c)
          (appendItem (AssemblyItem_Type Push k)))\<rparr>"

text \<open>Contexts for the examples: the initial context with 2 and with 7 stack slots.\<close>

definition context_with :: "32 word \<Rightarrow> CompilerContext" where
  "context_with height = CompilerContext_init\<lparr>m_asm := Assembly_init\<lparr>m_deposit := height\<rparr>\<rparr>"

text \<open>
  The initial context after one request for the helper \<open>fname\<close>: tag 1 is its entry tag
  and the entry is queued.
\<close>

definition context_requested ::
  "string \<Rightarrow> 32 word \<Rightarrow> 32 word \<Rightarrow> generator \<Rightarrow> CompilerContext"
where
  "context_requested fname inArgs outArgs gen =
     CompilerContext_init
       \<lparr>m_asm := Assembly_init\<lparr>m_usedTags := 2\<rparr>,
        m_lowLevelFunctions := [fname \<mapsto> AssemblyItem_Type PushTag 1],
        m_lowLevelFunctionGenerationQueue := [(fname, inArgs, outArgs, gen)]\<rparr>"

section \<open>Theorems\<close>

subsection \<open>The solver portfolio\<close>

lemma check_loop_no_answer:
  "\<not> solverAnswered lastResult \<Longrightarrow> \<forall>s \<in> set solvers. \<not> solverAnswered (fst s) \<Longrightarrow>
   check_loop solvers lastResult finalValues =
     (if lastResult = ERROR \<and> UNKNOWN \<in> fst ` set solvers then UNKNOWN else lastResult, finalValues)"
proof (induction solvers arbitrary: lastResult)
  case Nil
  then show ?case by simp
next
  case (Cons s solvers)
  obtain result vals where s: "s = (result, vals)" by (cases s)
  from Cons.prems have na: "\<not> solverAnswered result" and rest: "\<forall>s \<in> set solvers. \<not> solverAnswered (fst s)"
    by (simp_all add: s)
  show ?case
  proof (cases "result = UNKNOWN \<and> lastResult = ERROR")
    case True
    have "\<not> solverAnswered UNKNOWN" by (simp add: solverAnswered_def)
    from Cons.IH [OF this rest] True na show ?thesis by (simp add: s)
  next
    case False
    from Cons.IH [OF Cons.prems(1) rest] False na show ?thesis by (auto simp: s)
  qed
qed

lemma check_loop_answered:
  "solverAnswered lastResult \<Longrightarrow>
   check_loop solvers lastResult finalValues =
     (if \<exists>s \<in> set solvers. solverAnswered (fst s) \<and> fst s \<noteq> lastResult then CONFLICTING
      else lastResult, finalValues)"
proof (induction solvers)
  case Nil
  then show ?case by simp
next
  case (Cons s solvers)
  obtain r v where s: "s = (r, v)" by (cases s)
  note IH = Cons.IH [OF Cons.prems]
  have nE: "\<not> solverAnswered ERROR" by (simp add: solverAnswered_def)
  show ?case
  proof (cases "solverAnswered r \<and> lastResult \<noteq> r")
    case True
    with Cons.prems show ?thesis by (auto simp: s)
  next
    case False
    then have "check_loop (s # solvers) lastResult finalValues = check_loop solvers lastResult finalValues"
      using Cons.prems nE by (auto simp: s)
    moreover from False have
      "(\<exists>t \<in> set (s # solvers). solverAnswered (fst t) \<and> fst t \<noteq> lastResult)
        = (\<exists>t \<in> set solvers. solverAnswered (fst t) \<and> fst t \<noteq> lastResult)"
      by (auto simp: s)
    ultimately show ?thesis using IH by simp
  qed
qed

lemma check_loop_first_answer:
  "\<not> solverAnswered lastResult \<Longrightarrow> \<forall>s \<in> set pre. \<not> solverAnswered (fst s) \<Longrightarrow>
   solverAnswered result \<Longrightarrow>
   check_loop (pre @ (result, vals) # post) lastResult finalValues = check_loop post result vals"
proof (induction pre arbitrary: lastResult)
  case Nil
  then show ?case by simp
next
  case (Cons s pre)
  obtain r v where s: "s = (r, v)" by (cases s)
  from Cons.prems have na: "\<not> solverAnswered r" by (simp add: s)
  have "\<not> solverAnswered UNKNOWN" by (simp add: solverAnswered_def)
  with Cons show ?case using na by (simp add: s)
qed

lemma find_split:
  "find P xs = Some x \<Longrightarrow> \<exists>pre post. xs = pre @ x # post \<and> (\<forall>y \<in> set pre. \<not> P y) \<and> P x"
proof (induction xs)
  case Nil
  then show ?case by simp
next
  case (Cons a xs)
  show ?case
  proof (cases "P a")
    case True
    with Cons.prems have "a = x" by simp
    with True have "a # xs = [] @ x # xs \<and> (\<forall>y \<in> set []. \<not> P y) \<and> P x" by simp
    then show ?thesis by blast
  next
    case False
    with Cons.prems have "find P xs = Some x" by simp
    from Cons.IH [OF this] obtain pre post where
      "xs = pre @ x # post" "\<forall>y \<in> set pre. \<not> P y" "P x" by blast
    with False have "a # xs = (a # pre) @ x # post \<and> (\<forall>y \<in> set (a # pre). \<not> P y) \<and> P x" by simp
    then show ?thesis by blast
  qed
qed

text \<open>
  C9 (amended). For every list of per-solver results: \<open>check\<close> returns \<open>CONFLICTING\<close>
  whenever two solvers both answer (\<open>SATISFIABLE\<close> or \<open>UNSATISFIABLE\<close>) and disagree;
  otherwise it returns the first answer given by any solver, with that solver's values; if
  no solver answers it returns \<open>UNKNOWN\<close> when at least one solver returned \<open>UNKNOWN\<close> and
  \<open>ERROR\<close> when none did; and the result is \<open>ERROR\<close> exactly when every solver returned
  \<open>ERROR\<close> or \<open>CONFLICTING\<close>, the two results that are neither an answer nor \<open>UNKNOWN\<close>.
\<close>

theorem check_portfolio:
  "(disagree m_solvers \<longrightarrow> fst (check m_solvers) = CONFLICTING)
   \<and> (\<not> disagree m_solvers \<longrightarrow>
        find (\<lambda>s. solverAnswered (fst s)) m_solvers = Some (result, vals) \<longrightarrow>
        check m_solvers = (result, vals))
   \<and> ((\<forall>s \<in> set m_solvers. \<not> solverAnswered (fst s)) \<longrightarrow>
        (UNKNOWN \<in> fst ` set m_solvers \<longrightarrow> check m_solvers = (UNKNOWN, []))
        \<and> (UNKNOWN \<notin> fst ` set m_solvers \<longrightarrow> check m_solvers = (ERROR, [])))
   \<and> (fst (check m_solvers) = ERROR \<longleftrightarrow>
        (\<forall>s \<in> set m_solvers. fst s = ERROR \<or> fst s = CONFLICTING))"
proof -
  have nE: "\<not> solverAnswered ERROR" by (simp add: solverAnswered_def)
  let ?A = "\<lambda>s :: CheckResult \<times> string list. solverAnswered (fst s)"
  have none: "check m_solvers = (if UNKNOWN \<in> fst ` set m_solvers then UNKNOWN else ERROR, [])"
    if "\<forall>s \<in> set m_solvers. \<not> solverAnswered (fst s)"
    using check_loop_no_answer [OF nE that, of "[]"] by (simp add: check_def)
  have some: "check m_solvers =
      (if \<exists>s \<in> set post. solverAnswered (fst s) \<and> fst s \<noteq> r then CONFLICTING else r, v)"
    if "m_solvers = pre @ (r, v) # post" "\<forall>y \<in> set pre. \<not> solverAnswered (fst y)" "solverAnswered r"
    for pre post r v
    using check_loop_first_answer [OF nE that(2) that(3), of v post "[]"]
      check_loop_answered [OF that(3), of post v] that(1) by (simp add: check_def)
  have split: "\<exists>pre post r v. m_solvers = pre @ (r, v) # post
      \<and> (\<forall>y \<in> set pre. \<not> solverAnswered (fst y)) \<and> solverAnswered r"
    if "\<exists>s \<in> set m_solvers. solverAnswered (fst s)"
  proof -
    from that have "find ?A m_solvers \<noteq> None" unfolding find_None_iff by blast
    then obtain x where "find ?A m_solvers = Some x" by blast
    from find_split [OF this] show ?thesis by (cases x) fastforce
  qed
  have c1: "disagree m_solvers \<longrightarrow> fst (check m_solvers) = CONFLICTING"
  proof
    assume d: "disagree m_solvers"
    then have "\<exists>s \<in> set m_solvers. solverAnswered (fst s)" by (auto simp: disagree_def)
    from split [OF this] obtain pre post r v where
      sp: "m_solvers = pre @ (r, v) # post" "\<forall>y \<in> set pre. \<not> solverAnswered (fst y)" "solverAnswered r"
      by blast
    from d obtain s t where st: "s \<in> set m_solvers" "t \<in> set m_solvers"
      "solverAnswered (fst s)" "solverAnswered (fst t)" "fst s \<noteq> fst t"
      by (auto simp: disagree_def)
    have "\<exists>u \<in> set post. solverAnswered (fst u) \<and> fst u \<noteq> r"
    proof (cases "fst s = r")
      case True
      with st sp have "t \<in> set post" by auto
      with st True show ?thesis by auto
    next
      case False
      with st sp have "s \<in> set post" by auto
      with st False show ?thesis by auto
    qed
    with some [OF sp] show "fst (check m_solvers) = CONFLICTING" by simp
  qed
  have c2: "\<not> disagree m_solvers \<longrightarrow> find ?A m_solvers = Some (result, vals) \<longrightarrow>
        check m_solvers = (result, vals)"
  proof (intro impI)
    assume nd: "\<not> disagree m_solvers" and f: "find ?A m_solvers = Some (result, vals)"
    from find_split [OF f] obtain pre post where
      sp: "m_solvers = pre @ (result, vals) # post" "\<forall>y \<in> set pre. \<not> solverAnswered (fst y)"
        "solverAnswered result" by auto
    have "\<not> (\<exists>u \<in> set post. solverAnswered (fst u) \<and> fst u \<noteq> result)"
    proof
      assume "\<exists>u \<in> set post. solverAnswered (fst u) \<and> fst u \<noteq> result"
      then obtain u where "u \<in> set post" "solverAnswered (fst u)" "fst u \<noteq> result" by blast
      with sp have "disagree m_solvers" unfolding disagree_def
        by (intro bexI [of _ u] bexI [of _ "(result, vals)"]) auto
      with nd show False by simp
    qed
    with some [OF sp] show "check m_solvers = (result, vals)" by simp
  qed
  have c3: "(\<forall>s \<in> set m_solvers. \<not> solverAnswered (fst s)) \<longrightarrow>
        (UNKNOWN \<in> fst ` set m_solvers \<longrightarrow> check m_solvers = (UNKNOWN, []))
        \<and> (UNKNOWN \<notin> fst ` set m_solvers \<longrightarrow> check m_solvers = (ERROR, []))"
    using none by simp
  have c4: "fst (check m_solvers) = ERROR \<longleftrightarrow> (\<forall>s \<in> set m_solvers. fst s = ERROR \<or> fst s = CONFLICTING)"
  proof (cases "\<exists>s \<in> set m_solvers. solverAnswered (fst s)")
    case True
    from split [OF True] obtain pre post r v where
      sp: "m_solvers = pre @ (r, v) # post" "\<forall>y \<in> set pre. \<not> solverAnswered (fst y)" "solverAnswered r"
      by blast
    from some [OF sp] sp(3) have "fst (check m_solvers) \<noteq> ERROR"
      by (auto simp: solverAnswered_def)
    moreover from sp have "\<not> (\<forall>s \<in> set m_solvers. fst s = ERROR \<or> fst s = CONFLICTING)"
      by (auto simp: solverAnswered_def)
    ultimately show ?thesis by simp
  next
    case False
    then have na: "\<forall>s \<in> set m_solvers. \<not> solverAnswered (fst s)" by simp
    have "(UNKNOWN \<notin> fst ` set m_solvers) = (\<forall>s \<in> set m_solvers. fst s = ERROR \<or> fst s = CONFLICTING)"
    proof
      assume u: "UNKNOWN \<notin> fst ` set m_solvers"
      show "\<forall>s \<in> set m_solvers. fst s = ERROR \<or> fst s = CONFLICTING"
      proof
        fix s assume s: "s \<in> set m_solvers"
        with na have "\<not> solverAnswered (fst s)" by simp
        moreover from u s have "fst s \<noteq> UNKNOWN" by force
        ultimately show "fst s = ERROR \<or> fst s = CONFLICTING"
          by (cases "fst s") (simp_all add: solverAnswered_def)
      qed
    next
      assume "\<forall>s \<in> set m_solvers. fst s = ERROR \<or> fst s = CONFLICTING"
      then show "UNKNOWN \<notin> fst ` set m_solvers" by force
    qed
    with none [OF na] show ?thesis by auto
  qed
  from c1 c2 c3 c4 show ?thesis by blast
qed

text \<open>
  The theorem at four portfolios: two solvers that disagree; an error followed by two
  agreeing answers; no answer with one \<open>UNKNOWN\<close>; no answer and no \<open>UNKNOWN\<close>.
\<close>

theorem check_portfolio_witness:
  "fst (check [(UNKNOWN, []), (SATISFIABLE, [''1'']), (ERROR, []), (UNSATISFIABLE, [])]) = CONFLICTING
   \<and> check [(ERROR, []), (UNSATISFIABLE, [''a'']), (UNSATISFIABLE, [''b''])] = (UNSATISFIABLE, [''a''])
   \<and> check [(ERROR, []), (UNKNOWN, [])] = (UNKNOWN, [])
   \<and> check [(ERROR, []), (CONFLICTING, [])] = (ERROR, [])"
proof -
  have "disagree [(UNKNOWN, []), (SATISFIABLE, [''1'']), (ERROR, []), (UNSATISFIABLE, [])]"
    by (simp add: disagree_def solverAnswered_def)
  with check_portfolio [of "[(UNKNOWN, []), (SATISFIABLE, [''1'']), (ERROR, []), (UNSATISFIABLE, [])]"]
  have a: "fst (check [(UNKNOWN, []), (SATISFIABLE, [''1'']), (ERROR, []), (UNSATISFIABLE, [])]) = CONFLICTING"
    by blast
  have "\<not> disagree [(ERROR, []), (UNSATISFIABLE, [''a'']), (UNSATISFIABLE, [''b''])]"
    and "find (\<lambda>s. solverAnswered (fst s)) [(ERROR, []), (UNSATISFIABLE, [''a'']), (UNSATISFIABLE, [''b''])]
           = Some (UNSATISFIABLE, [''a''])"
    by (simp_all add: disagree_def solverAnswered_def)
  with check_portfolio [of "[(ERROR, []), (UNSATISFIABLE, [''a'']), (UNSATISFIABLE, [''b''])]"
      UNSATISFIABLE "[''a'']"]
  have b: "check [(ERROR, []), (UNSATISFIABLE, [''a'']), (UNSATISFIABLE, [''b''])] = (UNSATISFIABLE, [''a''])"
    by blast
  have "\<forall>s \<in> set [(ERROR, []), (UNKNOWN, [])]. \<not> solverAnswered (fst (s :: CheckResult \<times> string list))"
    and "UNKNOWN \<in> fst ` set [(ERROR, []), (UNKNOWN, [] :: string list)]"
    by (simp_all add: solverAnswered_def)
  with check_portfolio [of "[(ERROR, []), (UNKNOWN, [])]"]
  have c: "check [(ERROR, []), (UNKNOWN, [])] = (UNKNOWN, [])"
    by blast
  have "\<forall>s \<in> set [(ERROR, []), (CONFLICTING, [])]. \<not> solverAnswered (fst (s :: CheckResult \<times> string list))"
    and "UNKNOWN \<notin> fst ` set [(ERROR, []), (CONFLICTING, [] :: string list)]"
    by (simp_all add: solverAnswered_def)
  with check_portfolio [of "[(ERROR, []), (CONFLICTING, [])]"]
  have d: "check [(ERROR, []), (CONFLICTING, [])] = (ERROR, [])"
    by blast
  from a b c d show ?thesis by simp
qed

text \<open>
  The claim as stated has \<open>ERROR\<close> returned only when every solver returned \<open>ERROR\<close>. A
  single solver that returns \<open>CONFLICTING\<close> gives \<open>ERROR\<close> too.
\<close>

theorem check_error_counterexample:
  "fst (check [(CONFLICTING, [])]) = ERROR \<and> CONFLICTING \<noteq> ERROR"
  by (simp add: check_def solverAnswered_def)

subsection \<open>The deposit of an assembly\<close>

text \<open>
  C7. The deposit is never left negative: \<open>adjustDeposit\<close> and \<open>setDeposit\<close> either return
  the assembly with the new deposit, which is then at least 0, or throw \<open>InvalidDeposit\<close>,
  and they throw exactly when the new deposit is negative, so that nothing after the
  update runs on a negative deposit.
\<close>

theorem deposit_never_negative:
  "(case adjustDeposit adjustment a of
      Inl e \<Rightarrow> e = InvalidDeposit \<and> sint (m_deposit a + adjustment) < 0
    | Inr a' \<Rightarrow> 0 \<le> sint (deposit a') \<and> a' = a\<lparr>m_deposit := m_deposit a + adjustment\<rparr>)
   \<and> (case setDeposit d a of
      Inl e \<Rightarrow> e = InvalidDeposit \<and> sint d < 0
    | Inr a' \<Rightarrow> 0 \<le> sint (deposit a') \<and> a' = a\<lparr>m_deposit := d\<rparr>)"
  by (simp add: adjustDeposit_def setDeposit_def deposit_def Let_def)

subsection \<open>Semantic information\<close>

lemma instructionInfo_MUL:
  "instructionInfo MUL = \<lparr>name = ''MUL'', args = 2, ret = 1, sideEffects = False\<rparr>"
  by code_simp

text \<open>
  C8. For every instruction and every instruction table: if \<open>movable\<close> holds, the
  instruction is neither a dup nor a swap and has no declared side effect, so the
  assertion of \<open>canBeRemoved\<close> passes and \<open>canBeRemoved\<close> returns true.
\<close>

theorem movable_implies_removable:
  "movable info instruction \<Longrightarrow>
     \<not> isDupInstruction instruction \<and> \<not> isSwapInstruction instruction
     \<and> \<not> sideEffects (info instruction) \<and> canBeRemoved info instruction = Inr True"
  by (simp add: movable_def canBeRemoved_def split: if_splits)

theorem movable_implies_removable_witness:
  "movable instructionInfo MUL \<and> \<not> isDupInstruction MUL \<and> \<not> isSwapInstruction MUL
     \<and> \<not> sideEffects (instructionInfo MUL) \<and> canBeRemoved instructionInfo MUL = Inr True"
proof -
  have m: "movable instructionInfo MUL"
    by (simp add: movable_def isDupInstruction_def isSwapInstruction_def instructionInfo_MUL)
  from movable_implies_removable [OF m] m show ?thesis by simp
qed

subsection \<open>The jumpdest remover\<close>


lemma remove_if_Inr:
  "remove_if p xs = Inr ys \<Longrightarrow>
     ys = filter (\<lambda>x. p x = Inr False) xs \<and> (\<forall>x \<in> set xs. \<exists>b. p x = Inr b)"
proof (induction xs arbitrary: ys)
  case Nil
  then show ?case by simp
next
  case (Cons x xs)
  from Cons.prems obtain b where b: "p x = Inr b" by (cases "p x") simp_all
  from Cons.prems b obtain zs where zs: "remove_if p xs = Inr zs" by (cases "remove_if p xs") simp_all
  from Cons.IH [OF zs] Cons.prems b zs show ?case by (cases b) auto
qed

lemma remove_if_total:
  "\<forall>x \<in> set xs. \<exists>b. p x = Inr b \<Longrightarrow> remove_if p xs = Inr (filter (\<lambda>x. p x = Inr False) xs)"
proof (induction xs)
  case Nil
  then show ?case by simp
next
  case (Cons x xs)
  then obtain b where b: "p x = Inr b" by auto
  from Cons have "remove_if p xs = Inr (filter (\<lambda>x. p x = Inr False) xs)" by simp
  with b show ?case by (cases b) simp_all
qed

lemma filter_length_neq: "(length (filter P xs) \<noteq> length xs) = (filter P xs \<noteq> xs)"
proof (cases "\<forall>x \<in> set xs. P x")
  case True
  then have "filter P xs = xs" by (simp add: filter_id_conv)
  then show ?thesis by simp
next
  case False
  then obtain x where x: "x \<in> set xs" "\<not> P x" by blast
  from length_filter_less [of x xs P] x have "length (filter P xs) \<noteq> length xs" by simp
  moreover from False have "filter P xs \<noteq> xs" by (simp add: filter_id_conv)
  ultimately show ?thesis by simp
qed

lemma isUnreferencedTag_own:
  "m_type item = Tag \<longrightarrow> ownerId item = size_t_max \<Longrightarrow>
     isUnreferencedTag references item = Inr (m_type item = Tag \<and> tagId item \<notin> references)"
  by (simp add: isUnreferencedTag_def splitForeignPushTag_def)

lemma isUnreferencedTag_Inr:
  "isUnreferencedTag references item = Inr b \<Longrightarrow>
     b = (m_type item = Tag \<and> tagId item \<notin> references)"
  by (auto simp: isUnreferencedTag_def splitForeignPushTag_def split: if_splits)

lemma referencedTags_step_no_PC:
  "\<not> (m_type (items ! i) = Operation \<and> m_instruction (items ! i) = PC) \<Longrightarrow>
   referencedTags_step items subId i res =
     Inr (if m_type (items ! i) = PushTag \<and> ownerId (items ! i) = subId
          then insert (tagId (items ! i)) res else res)"
  by (auto simp: referencedTags_step_def splitForeignPushTag_def Let_def)

lemma referencedTags_loop_no_PC:
  "\<forall>item \<in> set items. \<not> (m_type item = Operation \<and> m_instruction item = PC) \<Longrightarrow>
   referencedTags_loop items subId i res = Inr (res \<union> spec_pushTagReferences (drop i items) subId)"
proof (induction items subId i res rule: referencedTags_loop.induct)
  case (1 items subId i res)
  show ?case
  proof (cases "i < length items")
    case True
    then have "items ! i \<in> set items" by simp
    with "1.prems" have np: "\<not> (m_type (items ! i) = Operation \<and> m_instruction (items ! i) = PC)"
      by blast
    note st = referencedTags_step_no_PC [OF np, of subId res]
    from "1.IH" [OF True st "1.prems"]
    have "referencedTags_loop items subId i res =
        Inr ((if m_type (items ! i) = PushTag \<and> ownerId (items ! i) = subId
          then insert (tagId (items ! i)) res else res) \<union> spec_pushTagReferences (drop (i + 1) items) subId)"
      using True st by (subst referencedTags_loop.simps) simp
    moreover have "drop i items = items ! i # drop (i + 1) items"
      using True by (simp add: Cons_nth_drop_Suc)
    ultimately show ?thesis by (auto simp: spec_pushTagReferences_def)
  next
    case False
    then show ?thesis by (subst referencedTags_loop.simps) (simp add: spec_pushTagReferences_def)
  qed
qed

lemma referencedTags_no_PC:
  "\<forall>item \<in> set items. \<not> (m_type item = Operation \<and> m_instruction item = PC) \<Longrightarrow>
   referencedTags items subId = Inr (spec_pushTagReferences items subId)"
  using referencedTags_loop_no_PC [of items subId 0 "{}"] by (simp add: referencedTags_def)

lemma referencedTags_step_mono:
  "referencedTags_step items subId i res = Inr res' \<Longrightarrow> res \<subseteq> res'"
  by (auto simp: referencedTags_step_def Let_def split: if_splits sum.splits)

lemma referencedTags_loop_mono:
  "referencedTags_loop items subId i res = Inr referenced \<Longrightarrow> res \<subseteq> referenced"
proof (induction items subId i res rule: referencedTags_loop.induct)
  case (1 items subId i res)
  show ?case
  proof (cases "i < length items")
    case True
    with "1.prems" obtain res' where st: "referencedTags_step items subId i res = Inr res'"
      and lp: "referencedTags_loop items subId (i + 1) res' = Inr referenced"
      by (subst (asm) referencedTags_loop.simps) (auto split: sum.splits)
    from "1.IH" [OF True st lp] referencedTags_step_mono [OF st] show ?thesis by blast
  next
    case False
    with "1.prems" show ?thesis by (subst (asm) referencedTags_loop.simps) simp
  qed
qed

lemma referencedTags_step_idiom:
  assumes "referencedTags_step items subId i res = Inr res'"
    and "m_type (items ! i) = Operation" "m_instruction (items ! i) = PC"
    and "i + 1 < length items" "m_type (items ! (i + 1)) \<noteq> Operation" "m_data (items ! (i + 1)) = 29"
  shows "i + 18 < length items \<and> i + 29 < length items
     \<and> (m_type (items ! (i + 18)) = PushTag \<or> m_type (items ! (i + 18)) = Tag)
     \<and> tagId (items ! (i + 18)) \<in> res'"
  using assms
  by (auto simp: referencedTags_step_def Let_def at_index_def data_def splitForeignPushTag_def
      split: if_splits sum.splits)

lemma referencedTags_loop_idiom:
  assumes "referencedTags_loop items subId j res = Inr referenced"
    and "j \<le> i"
    and "m_type (items ! i) = Operation" "m_instruction (items ! i) = PC"
    and "i + 1 < length items" "m_type (items ! (i + 1)) \<noteq> Operation" "m_data (items ! (i + 1)) = 29"
  shows "i + 18 < length items \<and> i + 29 < length items
     \<and> (m_type (items ! (i + 18)) = PushTag \<or> m_type (items ! (i + 18)) = Tag)
     \<and> tagId (items ! (i + 18)) \<in> referenced"
  using assms
proof (induction items subId j res rule: referencedTags_loop.induct)
  case (1 items subId j res)
  from "1.prems" have lt: "j < length items" by simp
  with "1.prems"(1) obtain res' where st: "referencedTags_step items subId j res = Inr res'"
    and lp: "referencedTags_loop items subId (j + 1) res' = Inr referenced"
    by (subst (asm) referencedTags_loop.simps) (auto split: sum.splits)
  show ?case
  proof (cases "j = i")
    case True
    from referencedTags_step_idiom [OF st [unfolded True] "1.prems"(3-7)]
      referencedTags_loop_mono [OF lp] show ?thesis by blast
  next
    case False
    with "1.prems"(2) have "j + 1 \<le> i" by simp
    from "1.IH" [OF lt st lp this "1.prems"(3-7)] show ?thesis .
  qed
qed


lemmas remover_eval = referencedTags_def referencedTags_loop.simps referencedTags_step_def
  AssemblyItem_Instruction_def AssemblyItem_Type_def at_index_def data_def
  splitForeignPushTag_def ownerId_def tagId_def size_t_max_def optimise_def
  isUnreferencedTag_def

lemma referencedTags_idiom_example: "referencedTags idiom_example size_t_max = Inr {7}"
  by (simp add: idiom_example_def remover_eval)

lemma optimise_idiom_example: "optimise idiom_example {} = Inr (idiom_example, False)"
  by (simp add: idiom_example_def remover_eval)

text \<open>
  C10. The claim has the scan of \<open>referencedTags\<close> read in-bounds indices only. The code
  reads \<open>_items[i+1]\<close>, and after a 29 there \<open>_items[i+18]\<close> and \<open>_items[i+29]\<close>, with no
  test against the size: on a sequence that ends with \<open>PC\<close>, and on \<open>PC\<close> and a push of 29
  alone, the scan leaves the vector.
\<close>

theorem referencedTags_reads_out_of_bounds:
  "referencedTags [AssemblyItem_Instruction PC] size_t_max = Inl OutOfBounds
   \<and> referencedTags [AssemblyItem_Instruction PC, AssemblyItem_Type Push 29] size_t_max = Inl OutOfBounds"
  by (simp add: remover_eval)

lemma optimise_Inr:
  assumes "optimise items outside = Inr (items', changed)"
  shows "\<exists>referenced. referencedTags items size_t_max = Inr referenced
     \<and> items' = spec_withoutTags (referenced \<union> outside) items
     \<and> changed = (items' \<noteq> items)"
proof -
  from assms obtain referenced where r: "referencedTags items size_t_max = Inr referenced"
    by (cases "referencedTags items size_t_max") (simp_all add: optimise_def)
  with assms have ri: "remove_if (isUnreferencedTag (referenced \<union> outside)) items = Inr items'"
    and ch: "changed = (length items' \<noteq> length items)"
    by (auto simp: optimise_def Let_def split: sum.splits)
  from remove_if_Inr [OF ri] have
    f: "items' = filter (\<lambda>x. isUnreferencedTag (referenced \<union> outside) x = Inr False) items"
    and t: "\<forall>x \<in> set items. \<exists>b. isUnreferencedTag (referenced \<union> outside) x = Inr b" by blast+
  have "filter (\<lambda>x. isUnreferencedTag (referenced \<union> outside) x = Inr False) items
      = spec_withoutTags (referenced \<union> outside) items"
    unfolding spec_withoutTags_def
  proof (rule filter_cong [OF refl])
    fix x assume "x \<in> set items"
    with t obtain b where b: "isUnreferencedTag (referenced \<union> outside) x = Inr b" by blast
    from isUnreferencedTag_Inr [OF b] b
    show "(isUnreferencedTag (referenced \<union> outside) x = Inr False)
        = (\<not> (m_type x = Tag \<and> tagId x \<notin> referenced \<union> outside))" by auto
  qed
  with f have f': "items' = spec_withoutTags (referenced \<union> outside) items" by simp
  from ch f' have "changed = (items' \<noteq> items)"
    by (simp add: spec_withoutTags_def filter_length_neq)
  with r f' show ?thesis by blast
qed

lemma optimise_own:
  assumes own: "\<forall>item \<in> set items. m_type item = Tag \<longrightarrow> ownerId item = size_t_max"
    and r: "referencedTags items size_t_max = Inr referenced"
  shows "optimise items outside =
     Inr (spec_withoutTags (referenced \<union> outside) items,
          spec_withoutTags (referenced \<union> outside) items \<noteq> items)"
proof -
  let ?p = "isUnreferencedTag (referenced \<union> outside)"
  from own have t: "\<forall>x \<in> set items. \<exists>b. ?p x = Inr b"
    by (auto simp: isUnreferencedTag_own)
  have "filter (\<lambda>x. ?p x = Inr False) items = spec_withoutTags (referenced \<union> outside) items"
    unfolding spec_withoutTags_def
  proof (rule filter_cong [OF refl])
    fix x assume "x \<in> set items"
    with own have "m_type x = Tag \<longrightarrow> ownerId x = size_t_max" by blast
    from isUnreferencedTag_own [OF this, of "referenced \<union> outside"]
    show "(?p x = Inr False) = (\<not> (m_type x = Tag \<and> tagId x \<notin> referenced \<union> outside))" by simp
  qed
  with remove_if_total [OF t]
  have "remove_if ?p items = Inr (spec_withoutTags (referenced \<union> outside) items)" by simp
  with r show ?thesis
    by (simp add: optimise_def Let_def spec_withoutTags_def filter_length_neq)
qed

lemma spec_pushTagReferences_withoutTags:
  "spec_pushTagReferences (spec_withoutTags references items) subId = spec_pushTagReferences items subId"
proof -
  have "filter (\<lambda>item. m_type item = PushTag \<and> ownerId item = subId)
        (filter (\<lambda>item. \<not> (m_type item = Tag \<and> tagId item \<notin> references)) items)
      = filter (\<lambda>item. m_type item = PushTag \<and> ownerId item = subId) items"
    by (induction items) auto
  then show ?thesis by (simp add: spec_pushTagReferences_def spec_withoutTags_def)
qed

lemma referencedTags_step_marks:
  "i < length items \<Longrightarrow> readsInRangeAt items i \<Longrightarrow>
     referencedTags_step items subId i res = Inr (res \<union> marksAt items subId i)"
  by (auto simp: referencedTags_step_def readsInRangeAt_def marksAt_def spec_idiomAt_def Let_def
      at_index_def data_def splitForeignPushTag_def)

lemma referencedTags_step_reads:
  "i < length items \<Longrightarrow> referencedTags_step items subId i res = Inr res' \<Longrightarrow> readsInRangeAt items i"
  by (auto simp: referencedTags_step_def readsInRangeAt_def Let_def
      at_index_def data_def splitForeignPushTag_def split: if_splits sum.splits)

lemma referencedTags_loop_marks:
  "\<forall>j. i \<le> j \<and> j < length items \<longrightarrow> readsInRangeAt items j \<Longrightarrow>
   referencedTags_loop items subId i res = Inr (res \<union> (\<Union>j \<in> {i..<length items}. marksAt items subId j))"
proof (induction items subId i res rule: referencedTags_loop.induct)
  case (1 items subId i res)
  show ?case
  proof (cases "i < length items")
    case True
    with "1.prems" have ok: "readsInRangeAt items i" by simp
    note st = referencedTags_step_marks [OF True ok, of subId res]
    from "1.prems" have "\<forall>j. i + 1 \<le> j \<and> j < length items \<longrightarrow> readsInRangeAt items j" by simp
    from "1.IH" [OF True st this]
    have "referencedTags_loop items subId i res =
        Inr ((res \<union> marksAt items subId i) \<union> (\<Union>j \<in> {i + 1..<length items}. marksAt items subId j))"
      using True st by (subst referencedTags_loop.simps) simp
    moreover from True have "{i..<length items} = insert i {i + 1..<length items}" by auto
    ultimately show ?thesis by auto
  next
    case False
    then show ?thesis by (subst referencedTags_loop.simps) simp
  qed
qed

lemma referencedTags_loop_reads:
  "referencedTags_loop items subId i res = Inr referenced \<Longrightarrow>
     \<forall>j. i \<le> j \<and> j < length items \<longrightarrow> readsInRangeAt items j"
proof (induction items subId i res rule: referencedTags_loop.induct)
  case (1 items subId i res)
  show ?case
  proof (cases "i < length items")
    case True
    with "1.prems" obtain res' where st: "referencedTags_step items subId i res = Inr res'"
      and lp: "referencedTags_loop items subId (i + 1) res' = Inr referenced"
      by (subst (asm) referencedTags_loop.simps) (auto split: sum.splits)
    from "1.IH" [OF True st lp] have later: "\<forall>j. i + 1 \<le> j \<and> j < length items \<longrightarrow> readsInRangeAt items j" .
    from referencedTags_step_reads [OF True st] have here: "readsInRangeAt items i" .
    show ?thesis
    proof (intro allI impI)
      fix j assume j: "i \<le> j \<and> j < length items"
      show "readsInRangeAt items j"
      proof (cases "j = i")
        case True
        with here show ?thesis by simp
      next
        case False
        with j have "i + 1 \<le> j \<and> j < length items" by simp
        with later show ?thesis by blast
      qed
    qed
  next
    case False
    then show ?thesis by auto
  qed
qed

lemma marks_union:
  "(\<Union>j \<in> {0..<length items}. marksAt items subId j)
     = spec_pushTagReferences items subId \<union> spec_idiomTags items"
proof -
  have a: "spec_pushTagReferences items subId
      = (\<Union>j \<in> {0..<length items}. if m_type (items ! j) = PushTag \<and> ownerId (items ! j) = subId
           then {tagId (items ! j)} else {})"
  proof (intro set_eqI iffI)
    fix t assume "t \<in> spec_pushTagReferences items subId"
    then obtain x where x: "x \<in> set items" "m_type x = PushTag" "ownerId x = subId" "t = tagId x"
      by (auto simp: spec_pushTagReferences_def)
    from x(1) obtain j where "j < length items" "items ! j = x" by (auto simp: in_set_conv_nth)
    with x show "t \<in> (\<Union>j \<in> {0..<length items}. if m_type (items ! j) = PushTag \<and> ownerId (items ! j) = subId
           then {tagId (items ! j)} else {})" by force
  next
    fix t assume "t \<in> (\<Union>j \<in> {0..<length items}. if m_type (items ! j) = PushTag \<and> ownerId (items ! j) = subId
           then {tagId (items ! j)} else {})"
    then obtain j where j: "j < length items" "m_type (items ! j) = PushTag" "ownerId (items ! j) = subId"
      "t = tagId (items ! j)" by (auto split: if_splits)
    from j(1) have "items ! j \<in> set items" by simp
    with j show "t \<in> spec_pushTagReferences items subId"
      by (force simp: spec_pushTagReferences_def)
  qed
  have b: "spec_idiomTags items
      = (\<Union>j \<in> {0..<length items}. if spec_idiomAt items j then {tagId (items ! (j + 18))} else {})"
    by (auto simp: spec_idiomTags_def)
  show ?thesis unfolding a b marksAt_def by blast
qed

lemma readsInRange_iff:
  "readsInRange items = (\<forall>j. j < length items \<longrightarrow> readsInRangeAt items j)"
  by (auto simp: readsInRange_def list_all_iff)

lemma referencedTags_in_range:
  "readsInRange items \<Longrightarrow>
     referencedTags items subId = Inr (spec_pushTagReferences items subId \<union> spec_idiomTags items)"
  using referencedTags_loop_marks [of 0 items subId "{}"]
  by (simp add: referencedTags_def readsInRange_iff marks_union)

lemma referencedTags_Inr:
  assumes "referencedTags items subId = Inr referenced"
  shows "readsInRange items \<and> referenced = spec_pushTagReferences items subId \<union> spec_idiomTags items"
proof -
  from assms referencedTags_loop_reads [of items subId 0 "{}" referenced]
  have r: "readsInRange items" by (simp add: referencedTags_def readsInRange_iff)
  from referencedTags_in_range [OF r, of subId] assms show ?thesis using r by simp
qed

lemma optimise_shift_first_run: "optimise shift_example {} = Inr (spec_withoutTags {7, 9} shift_example, True)"
  by (simp add: shift_example_def remover_eval spec_withoutTags_def)

lemma optimise_shift_second_run: "optimise (spec_withoutTags {7, 9} shift_example) {}
   = Inr (spec_withoutTags {9} shift_example, True)"
  by (simp add: shift_example_def remover_eval spec_withoutTags_def)

lemma idiomTags_example: "spec_idiomTags idiom_example = {7}"
  by (simp add: spec_idiomTags_def spec_idiomAt_def idiom_example_def AssemblyItem_Instruction_def
      AssemblyItem_Type_def data_def tagId_def upt_rec_numeral)

lemma readsInRange_example: "readsInRange idiom_example"
  by (simp add: readsInRange_def readsInRangeAt_def idiom_example_def AssemblyItem_Instruction_def
      AssemblyItem_Type_def upt_rec_numeral)

lemma spec_withoutTags_mono:
  "R \<subseteq> R' \<Longrightarrow> spec_withoutTags R' (spec_withoutTags R items) = spec_withoutTags R items"
proof -
  assume sub: "R \<subseteq> R'"
  have "\<forall>x \<in> set (spec_withoutTags R items). \<not> (m_type x = Tag \<and> tagId x \<notin> R')"
    using sub by (auto simp: spec_withoutTags_def)
  then show ?thesis
    unfolding spec_withoutTags_def [of R'] by (simp add: filter_id_conv)
qed

lemma optimise_second_run:
  assumes r1: "optimise items outside = Inr (items', changed)"
    and r2: "optimise items' outside = Inr (items'', changed')"
    and still: "spec_idiomTags items
                  \<subseteq> spec_idiomTags items' \<union> spec_pushTagReferences items size_t_max \<union> outside"
  shows "items'' = items' \<and> \<not> changed'"
proof -
  from optimise_Inr [OF r1] obtain referenced where
    a: "referencedTags items size_t_max = Inr referenced"
    and i1: "items' = spec_withoutTags (referenced \<union> outside) items" by blast
  from optimise_Inr [OF r2] obtain referenced' where
    b: "referencedTags items' size_t_max = Inr referenced'"
    and i2: "items'' = spec_withoutTags (referenced' \<union> outside) items'"
    and c2: "changed' = (items'' \<noteq> items')" by blast
  from referencedTags_Inr [OF a]
  have ra: "referenced = spec_pushTagReferences items size_t_max \<union> spec_idiomTags items" by simp
  from referencedTags_Inr [OF b] i1
  have rb: "referenced' = spec_pushTagReferences items size_t_max \<union> spec_idiomTags items'"
    by (simp add: spec_pushTagReferences_withoutTags)
  from ra rb still have "referenced \<union> outside \<subseteq> referenced' \<union> outside" by blast
  from spec_withoutTags_mono [OF this, of items] i1 i2 have "items'' = items'" by simp
  with c2 show ?thesis by simp
qed

text \<open>
  C3 (amended). For every item sequence whose Tag items all belong to the sequence's own
  scope and every set of tag ids supplied from outside: whenever the scan \<open>referencedTags\<close>
  returns, and it returns when its reads are in range, its set is the same-scope push-tag
  references together with the tags marked through the \<open>PC\<close>/29 idiom, and \<open>optimise\<close>
  deletes exactly the Tag items whose id is neither in that set nor in the outside set,
  leaves every other item in its place, and returns true if and only if an item was
  deleted. A second run that returns deletes nothing and returns false when every tag
  marked through the idiom in the first run is still marked in the second, through the
  idiom, a push-tag or the outside set; so it is when the first run deleted nothing, and
  when the sequence holds no \<open>PC\<close> operation, where the second run always returns.
\<close>

theorem optimise_deletes_unreferenced_tags:
  assumes own: "\<forall>item \<in> set items. m_type item = Tag \<longrightarrow> ownerId item = size_t_max"
  shows "(referencedTags items size_t_max = Inr referenced \<longrightarrow>
            referenced = spec_pushTagReferences items size_t_max \<union> spec_idiomTags items
            \<and> optimise items outside =
                Inr (spec_withoutTags (referenced \<union> outside) items,
                     spec_withoutTags (referenced \<union> outside) items \<noteq> items))
       \<and> (readsInRange items \<longrightarrow>
            optimise items outside =
              Inr (spec_withoutTags
                     (spec_pushTagReferences items size_t_max \<union> spec_idiomTags items \<union> outside) items,
                   spec_withoutTags
                     (spec_pushTagReferences items size_t_max \<union> spec_idiomTags items \<union> outside) items
                   \<noteq> items))
       \<and> ((\<forall>item \<in> set items. \<not> (m_type item = Operation \<and> m_instruction item = PC)) \<longrightarrow>
            referencedTags items size_t_max = Inr (spec_pushTagReferences items size_t_max)
            \<and> optimise (spec_withoutTags (spec_pushTagReferences items size_t_max \<union> outside) items) outside
                = Inr (spec_withoutTags (spec_pushTagReferences items size_t_max \<union> outside) items, False))
       \<and> (optimise items outside = Inr (items', changed)
            \<and> optimise items' outside = Inr (items'', changed')
            \<and> spec_idiomTags items
                 \<subseteq> spec_idiomTags items' \<union> spec_pushTagReferences items size_t_max \<union> outside
           \<longrightarrow> items'' = items' \<and> \<not> changed')
       \<and> (optimise items outside = Inr (items', False) \<longrightarrow>
            optimise items' outside = Inr (items', False))"
proof (intro conjI impI)
  assume r: "referencedTags items size_t_max = Inr referenced"
  from referencedTags_Inr [OF r]
  show "referenced = spec_pushTagReferences items size_t_max \<union> spec_idiomTags items" by simp
  from optimise_own [OF own r]
  show "optimise items outside =
      Inr (spec_withoutTags (referenced \<union> outside) items,
           spec_withoutTags (referenced \<union> outside) items \<noteq> items)" .
next
  assume "readsInRange items"
  from optimise_own [OF own referencedTags_in_range [OF this]]
  show "optimise items outside =
      Inr (spec_withoutTags
             (spec_pushTagReferences items size_t_max \<union> spec_idiomTags items \<union> outside) items,
           spec_withoutTags
             (spec_pushTagReferences items size_t_max \<union> spec_idiomTags items \<union> outside) items
           \<noteq> items)" .
next
  assume np: "\<forall>item \<in> set items. \<not> (m_type item = Operation \<and> m_instruction item = PC)"
  from referencedTags_no_PC [OF np]
  show "referencedTags items size_t_max = Inr (spec_pushTagReferences items size_t_max)" .
next
  assume np: "\<forall>item \<in> set items. \<not> (m_type item = Operation \<and> m_instruction item = PC)"
  let ?R = "spec_pushTagReferences items size_t_max \<union> outside"
  let ?S = "spec_withoutTags ?R items"
  have sub: "set ?S \<subseteq> set items" by (auto simp: spec_withoutTags_def)
  from sub np have np': "\<forall>item \<in> set ?S. \<not> (m_type item = Operation \<and> m_instruction item = PC)"
    by blast
  from sub own have own': "\<forall>item \<in> set ?S. m_type item = Tag \<longrightarrow> ownerId item = size_t_max"
    by blast
  from referencedTags_no_PC [OF np', of size_t_max]
  have r: "referencedTags ?S size_t_max = Inr (spec_pushTagReferences items size_t_max)"
    by (simp add: spec_pushTagReferences_withoutTags)
  have idem: "spec_withoutTags ?R ?S = ?S" by (simp add: spec_withoutTags_def)
  from optimise_own [OF own' r, of outside] idem
  show "optimise ?S outside = Inr (?S, False)" by simp
next
  assume h: "optimise items outside = Inr (items', changed)
            \<and> optimise items' outside = Inr (items'', changed')
            \<and> spec_idiomTags items
                 \<subseteq> spec_idiomTags items' \<union> spec_pushTagReferences items size_t_max \<union> outside"
  from h optimise_second_run [of items outside items' changed items'' changed']
  show "items'' = items'" by blast
  from h optimise_second_run [of items outside items' changed items'' changed']
  show "\<not> changed'" by blast
next
  assume h: "optimise items outside = Inr (items', False)"
  from optimise_Inr [OF h] have "items' = items" by blast
  with h show "optimise items' outside = Inr (items', False)" by simp
qed

text \<open>
  The theorem at \<open>plain_example\<close> with the outside set \<open>{3}\<close>: tag 2 is deleted, and the
  second run changes nothing; and at \<open>idiom_example\<close>, where the scan returns tag 7 and the
  run deletes nothing.
\<close>

theorem optimise_deletes_unreferenced_tags_witness:
  "optimise plain_example {3} =
     Inr ([AssemblyItem_Type PushTag 1, AssemblyItem_Instruction JUMP,
           AssemblyItem_Instruction GAS, AssemblyItem_Type Tag 1, AssemblyItem_Instruction POP,
           AssemblyItem_Type Tag 3], True)
   \<and> optimise [AssemblyItem_Type PushTag 1, AssemblyItem_Instruction JUMP,
           AssemblyItem_Instruction GAS, AssemblyItem_Type Tag 1, AssemblyItem_Instruction POP,
           AssemblyItem_Type Tag 3] {3} =
     Inr ([AssemblyItem_Type PushTag 1, AssemblyItem_Instruction JUMP,
           AssemblyItem_Instruction GAS, AssemblyItem_Type Tag 1, AssemblyItem_Instruction POP,
           AssemblyItem_Type Tag 3], False)
   \<and> referencedTags idiom_example size_t_max = Inr ({} \<union> {7})
   \<and> optimise idiom_example {} = Inr (idiom_example, False)"
proof -
  have own: "\<forall>item \<in> set plain_example. m_type item = Tag \<longrightarrow> ownerId item = size_t_max"
    by (simp add: plain_example_def AssemblyItem_Type_def AssemblyItem_Instruction_def
        ownerId_def size_t_max_def)
  have np: "\<forall>item \<in> set plain_example. \<not> (m_type item = Operation \<and> m_instruction item = PC)"
    by (simp add: plain_example_def AssemblyItem_Type_def AssemblyItem_Instruction_def)
  have refs: "spec_pushTagReferences plain_example size_t_max = {1}"
    by (simp add: plain_example_def spec_pushTagReferences_def AssemblyItem_Type_def
        AssemblyItem_Instruction_def ownerId_def tagId_def size_t_max_def)
  have without: "spec_withoutTags ({1} \<union> {3}) plain_example =
      [AssemblyItem_Type PushTag 1, AssemblyItem_Instruction JUMP,
       AssemblyItem_Instruction GAS, AssemblyItem_Type Tag 1, AssemblyItem_Instruction POP,
       AssemblyItem_Type Tag 3]"
    by (simp add: plain_example_def spec_withoutTags_def AssemblyItem_Type_def
        AssemblyItem_Instruction_def tagId_def)
  have neq: "spec_withoutTags ({1} \<union> {3}) plain_example \<noteq> plain_example"
    unfolding without by (simp add: plain_example_def)
  note T = optimise_deletes_unreferenced_tags [OF own, of "{1}" "{3}"]
  from T [THEN conjunct2, THEN conjunct2, THEN conjunct1, THEN mp, OF np]
  have scan: "referencedTags plain_example size_t_max = Inr {1}"
    and second: "optimise (spec_withoutTags ({1} \<union> {3}) plain_example) {3}
       = Inr (spec_withoutTags ({1} \<union> {3}) plain_example, False)"
    unfolding refs by blast+
  from T [THEN conjunct1, THEN mp, OF scan, THEN conjunct2] neq
  have first: "optimise plain_example {3} = Inr (spec_withoutTags ({1} \<union> {3}) plain_example, True)"
    by simp
  from first second
  have plain: "optimise plain_example {3} =
     Inr ([AssemblyItem_Type PushTag 1, AssemblyItem_Instruction JUMP,
           AssemblyItem_Instruction GAS, AssemblyItem_Type Tag 1, AssemblyItem_Instruction POP,
           AssemblyItem_Type Tag 3], True)
   \<and> optimise [AssemblyItem_Type PushTag 1, AssemblyItem_Instruction JUMP,
           AssemblyItem_Instruction GAS, AssemblyItem_Type Tag 1, AssemblyItem_Instruction POP,
           AssemblyItem_Type Tag 3] {3} =
     Inr ([AssemblyItem_Type PushTag 1, AssemblyItem_Instruction JUMP,
           AssemblyItem_Instruction GAS, AssemblyItem_Type Tag 1, AssemblyItem_Instruction POP,
           AssemblyItem_Type Tag 3], False)"
    unfolding without by (rule conjI)
  have own': "\<forall>item \<in> set idiom_example. m_type item = Tag \<longrightarrow> ownerId item = size_t_max"
    by (simp add: idiom_example_def AssemblyItem_Type_def AssemblyItem_Instruction_def
        ownerId_def size_t_max_def)
  have refs': "spec_pushTagReferences idiom_example size_t_max = {}"
    by (simp add: idiom_example_def spec_pushTagReferences_def AssemblyItem_Type_def
        AssemblyItem_Instruction_def)
  have without': "spec_withoutTags ({} \<union> {7} \<union> {}) idiom_example = idiom_example"
    by (simp add: idiom_example_def spec_withoutTags_def AssemblyItem_Type_def
        AssemblyItem_Instruction_def tagId_def)
  from optimise_deletes_unreferenced_tags [OF own', of _ "{}", THEN conjunct2, THEN conjunct1,
      THEN mp, OF readsInRange_example]
  have "optimise idiom_example {} =
      Inr (spec_withoutTags
             (spec_pushTagReferences idiom_example size_t_max \<union> spec_idiomTags idiom_example \<union> {})
             idiom_example,
           spec_withoutTags
             (spec_pushTagReferences idiom_example size_t_max \<union> spec_idiomTags idiom_example \<union> {})
             idiom_example
           \<noteq> idiom_example)" .
  then have idiom: "optimise idiom_example {} = Inr (idiom_example, False)"
    unfolding refs' idiomTags_example without' by simp
  from referencedTags_in_range [OF readsInRange_example, of size_t_max]
  have "referencedTags idiom_example size_t_max = Inr ({} \<union> {7})"
    unfolding refs' idiomTags_example .
  with plain idiom show ?thesis by simp
qed

text \<open>
  The claim as stated has every Tag item deleted whose id is neither in a same-scope
  push-tag reference nor in the outside set. In \<open>idiom_example\<close> the item at position 18 is the Tag item
  of tag 7 of the sequence's own scope, no push-tag refers to it and the outside set is empty, yet
  the run deletes nothing: the idiom at the head of the sequence marks it.
\<close>

theorem optimise_keeps_idiom_tag_counterexample:
  "optimise idiom_example {} = Inr (idiom_example, False)
   \<and> idiom_example ! 18 = AssemblyItem_Type Tag 7
   \<and> m_type (AssemblyItem_Type Tag 7) = Tag
   \<and> ownerId (AssemblyItem_Type Tag 7) = size_t_max
   \<and> tagId (AssemblyItem_Type Tag 7) \<notin> spec_pushTagReferences idiom_example size_t_max \<union> {}"
  by (simp add: optimise_idiom_example)
     (simp add: idiom_example_def spec_pushTagReferences_def AssemblyItem_Type_def
        AssemblyItem_Instruction_def ownerId_def tagId_def size_t_max_def)

text \<open>
  Between two runs the positions can move: in \<open>shift_example\<close> the first run deletes tag 5,
  which stands between the \<open>PC\<close> and tag 7, and the second run finds the push of tag 9 at
  18 positions after the \<open>PC\<close> and deletes tag 7.
\<close>

lemma optimise_twice_shift_example:
  "optimise shift_example {} = Inr (spec_withoutTags {7, 9} shift_example, True)
   \<and> optimise (spec_withoutTags {7, 9} shift_example) {}
       = Inr (spec_withoutTags {9} shift_example, True)"
  using optimise_shift_first_run optimise_shift_second_run by (rule conjI)

text \<open>
  C4. For every sequence and every position \<open>i\<close> of an Operation \<open>PC\<close> item followed by an item
  whose data is 29: whenever the scan returns, the position \<open>i + 18\<close> is inside the sequence
  and the tag id of the item there is in the set of referenced tags; whenever the pass
  returns, every Tag item with that id survives it, with or without a push-tag that
  refers to it; and the pass returns when the reads of the scan are in range and the Tag
  items are of the sequence's own scope.
\<close>

theorem idiom_tag_survives:
  assumes "spec_idiomAt items i"
  shows "(\<forall>referenced. referencedTags items size_t_max = Inr referenced \<longrightarrow>
            i + 18 < length items \<and> tagId (items ! (i + 18)) \<in> referenced)
       \<and> (\<forall>items' changed. optimise items outside = Inr (items', changed) \<longrightarrow>
            (\<forall>item \<in> set items. m_type item = Tag \<and> tagId item = tagId (items ! (i + 18))
               \<longrightarrow> item \<in> set items'))
       \<and> (readsInRange items
            \<and> (\<forall>item \<in> set items. m_type item = Tag \<longrightarrow> ownerId item = size_t_max)
          \<longrightarrow> (\<exists>items' changed. optimise items outside = Inr (items', changed)))"
proof (intro conjI allI impI)
  fix referenced assume r: "referencedTags items size_t_max = Inr referenced"
  from assms have i: "i < length items" "spec_idiomAt items i" by (simp_all add: spec_idiomAt_def)
  from i have "tagId (items ! (i + 18)) \<in> spec_idiomTags items"
    by (auto simp: spec_idiomTags_def)
  with referencedTags_Inr [OF r] show "tagId (items ! (i + 18)) \<in> referenced" by simp
  from referencedTags_Inr [OF r] i(1) have "readsInRangeAt items i" by (simp add: readsInRange_iff)
  with assms show "i + 18 < length items"
    by (auto simp: readsInRangeAt_def spec_idiomAt_def data_def split: if_splits)
next
  fix items' changed
  assume o: "optimise items outside = Inr (items', changed)"
  from optimise_Inr [OF o] obtain referenced where
    r: "referencedTags items size_t_max = Inr referenced"
    and i': "items' = spec_withoutTags (referenced \<union> outside) items" by blast
  from assms have "tagId (items ! (i + 18)) \<in> spec_idiomTags items"
    by (auto simp: spec_idiomTags_def spec_idiomAt_def)
  with referencedTags_Inr [OF r] have "tagId (items ! (i + 18)) \<in> referenced" by simp
  with i' show "\<forall>item \<in> set items. m_type item = Tag \<and> tagId item = tagId (items ! (i + 18))
               \<longrightarrow> item \<in> set items'"
    by (auto simp: spec_withoutTags_def)
next
  assume h: "readsInRange items
            \<and> (\<forall>item \<in> set items. m_type item = Tag \<longrightarrow> ownerId item = size_t_max)"
  then have own: "\<forall>item \<in> set items. m_type item = Tag \<longrightarrow> ownerId item = size_t_max"
    and rr: "readsInRange items" by blast+
  from optimise_own [OF own referencedTags_in_range [OF rr]]
  show "\<exists>items' changed. optimise items outside = Inr (items', changed)" by blast
qed

text \<open>At \<open>idiom_example\<close>, with the idiom at position 0 and tag 7 at 18.\<close>

theorem idiom_tag_survives_witness:
  "spec_idiomAt idiom_example 0
   \<and> referencedTags idiom_example size_t_max = Inr {7}
   \<and> optimise idiom_example {} = Inr (idiom_example, False)
   \<and> idiom_example ! (0 + 18) = AssemblyItem_Type Tag 7
   \<and> tagId (AssemblyItem_Type Tag 7) = 7
   \<and> AssemblyItem_Type Tag 7 \<in> set idiom_example"
proof -
  have h: "spec_idiomAt idiom_example 0"
    by (simp add: spec_idiomAt_def idiom_example_def AssemblyItem_Type_def
        AssemblyItem_Instruction_def data_def)
  have t: "idiom_example ! (0 + 18) = AssemblyItem_Type Tag 7"
    "tagId (AssemblyItem_Type Tag 7) = 7" "m_type (AssemblyItem_Type Tag 7) = Tag"
    by (simp_all add: idiom_example_def AssemblyItem_Type_def tagId_def)
  have own: "\<forall>item \<in> set idiom_example. m_type item = Tag \<longrightarrow> ownerId item = size_t_max"
    by (simp add: idiom_example_def AssemblyItem_Type_def AssemblyItem_Instruction_def
        ownerId_def size_t_max_def)
  have mem: "AssemblyItem_Type Tag 7 \<in> set idiom_example"
    by (simp add: idiom_example_def)
  note T = idiom_tag_survives [OF h, of "{}"]
  from T [THEN conjunct2, THEN conjunct2, THEN mp, OF conjI [OF readsInRange_example own]]
  obtain items' changed where o: "optimise idiom_example {} = Inr (items', changed)" by blast
  from T [THEN conjunct1, THEN spec, THEN mp, OF referencedTags_idiom_example]
  have m: "tagId (idiom_example ! (0 + 18)) \<in> {7::nat}" by simp
  from T [THEN conjunct2, THEN conjunct1, THEN spec, THEN spec, THEN mp, OF o, THEN bspec, OF mem] t
  have s: "AssemblyItem_Type Tag 7 \<in> set items'" by simp
  from o optimise_idiom_example have "items' = idiom_example" by simp
  with h t(1,2) mem referencedTags_idiom_example optimise_idiom_example show ?thesis
    by blast
qed

subsection \<open>The compiler context\<close>

lemma thenE_Inr [simp]: "thenE (Inr x) f = f x"
  by (simp add: thenE_def)

lemma thenE_Inl [simp]: "thenE (Inl e) f = Inl e"
  by (simp add: thenE_def)

lemma thenE_eq_Inr: "(thenE m f = Inr y) = (\<exists>x. m = Inr x \<and> f x = Inr y)"
  by (cases m) simp_all

lemma appendItem_Inr:
  "appendItem i c = Inr c' \<Longrightarrow>
     c' = c\<lparr>m_asm := (m_asm c)\<lparr>m_deposit := m_deposit (m_asm c) + itemDeposit i,
                                m_items := m_items (m_asm c) @ [i]\<rparr>\<rparr>"
  by (auto simp: appendItem_def Assembly_append_def Let_def thenE_eq_Inr split: if_splits)

lemma rewriteOperation_forbidden:
  assumes "forbidden instruction"
  shows "rewriteOperation X instruction c =
       Inr (False,
            if instruction = SELFBALANCE \<or> instruction = BALANCE
            then warning 1633
               (''OVM: '' @ name (instructionInfo instruction)
                @ '' is not implemented in the OVM. (We have no native ETH -- use deposited WETH instead!)'')
               c
            else warning 6388
               (''OVM: '' @ name (instructionInfo instruction) @ '' is not implemented in the OVM.'')
               c)"
proof (cases "instruction = SELFBALANCE \<or> instruction = BALANCE")
  case True
  then show ?thesis unfolding rewriteOperation_def Let_def by (simp only: if_True)
next
  case False
  with assms have "instruction = BLOCKHASH \<or> instruction = CALLCODE \<or> instruction = COINBASE
            \<or> instruction = DIFFICULTY \<or> instruction = GASPRICE \<or> instruction = ORIGIN
            \<or> instruction = SELFDESTRUCT"
    unfolding forbidden_def by blast
  with False show ?thesis unfolding rewriteOperation_def Let_def by (simp only: if_True if_False)
qed

lemma flag_reset:
  "\<not> m_disable_rewrite c \<Longrightarrow>
     (warning errorId message (c\<lparr>m_disable_rewrite := True\<rparr>))\<lparr>m_disable_rewrite := False\<rparr>
       = warning errorId message c"
  by (cases c) (simp add: warning_def)

text \<open>
  C5 (amended). For an operation item with a forbidden opcode, met while rewriting is
  enabled, the hook records exactly one warning and returns false: the append is not
  suppressed, and the item that \<open>append\<close> emits is the forbidden opcode itself, after the
  warning.
\<close>

theorem forbidden_opcode_warned_and_kept:
  assumes "\<not> m_disable_rewrite c" and "m_type i = Operation" and "forbidden (m_instruction i)"
  shows "\<exists>errorId message.
           appendCallback X i c = Inr (False, warning errorId message c)
           \<and> append X i c = appendItem i (warning errorId message c)
           \<and> (\<forall>c'. append X i c = Inr c' \<longrightarrow>
                 m_items (m_asm c') = m_items (m_asm c) @ [i]
                 \<and> m_errorReporter c' = m_errorReporter c @ [Warning errorId message])"
proof -
  let ?c1 = "c\<lparr>m_disable_rewrite := True\<rparr>"
  from rewriteOperation_forbidden [OF assms(3), of X ?c1] obtain errorId message where
    r: "rewriteOperation X (m_instruction i) ?c1 = Inr (False, warning errorId message ?c1)"
    by (cases "m_instruction i = SELFBALANCE \<or> m_instruction i = BALANCE") auto
  from assms(1,2) r flag_reset [OF assms(1), of errorId message]
  have cb: "appendCallback X i c = Inr (False, warning errorId message c)"
    by (simp add: appendCallback_def Let_def)
  then have ap: "append X i c = appendItem i (warning errorId message c)"
    by (simp add: append_def)
  have "\<forall>c'. append X i c = Inr c' \<longrightarrow>
          m_items (m_asm c') = m_items (m_asm c) @ [i]
          \<and> m_errorReporter c' = m_errorReporter c @ [Warning errorId message]"
  proof (intro allI impI)
    fix c' assume "append X i c = Inr c'"
    with ap have "appendItem i (warning errorId message c) = Inr c'" by simp
    from appendItem_Inr [OF this] show "m_items (m_asm c') = m_items (m_asm c) @ [i]
          \<and> m_errorReporter c' = m_errorReporter c @ [Warning errorId message]"
      by (simp add: warning_def)
  qed
  with cb ap show ?thesis by blast
qed

lemma forbidden_BALANCE: "forbidden BALANCE"
  by (simp add: forbidden_def)

lemma instructionInfo_BALANCE:
  "instructionInfo BALANCE = \<lparr>name = ''BALANCE'', args = 1, ret = 1, sideEffects = False\<rparr>"
  by code_simp

lemma itemDeposit_BALANCE: "itemDeposit (AssemblyItem_Instruction BALANCE) = 0"
  by (simp add: itemDeposit_def arguments_def returnValues_def AssemblyItem_Instruction_def
      instructionInfo_BALANCE)

text \<open>
  The hook on \<open>BALANCE\<close> in a fresh context returns false with warning 1633, and the
  output of the append is the item \<open>BALANCE\<close>: the opcode is not omitted.
\<close>

theorem forbidden_opcode_appended_counterexample:
  "appendCallback exampleExternals (AssemblyItem_Instruction BALANCE) CompilerContext_init
     = Inr (False,
            warning 1633
              ''OVM: BALANCE is not implemented in the OVM. (We have no native ETH -- use deposited WETH instead!)''
              CompilerContext_init)
   \<and> append exampleExternals (AssemblyItem_Instruction BALANCE) CompilerContext_init
     = Inr (CompilerContext_init
         \<lparr>m_asm := Assembly_init\<lparr>m_items := [AssemblyItem_Instruction BALANCE]\<rparr>,
          m_errorReporter :=
            [Warning 1633
               ''OVM: BALANCE is not implemented in the OVM. (We have no native ETH -- use deposited WETH instead!)'']\<rparr>)"
proof -
  have cb: "appendCallback exampleExternals (AssemblyItem_Instruction BALANCE) CompilerContext_init
     = Inr (False,
            warning 1633
              ''OVM: BALANCE is not implemented in the OVM. (We have no native ETH -- use deposited WETH instead!)''
              CompilerContext_init)"
    using rewriteOperation_forbidden [OF forbidden_BALANCE, of exampleExternals
        "CompilerContext_init\<lparr>m_disable_rewrite := True\<rparr>"]
    by (simp add: appendCallback_def Let_def AssemblyItem_Instruction_def
        CompilerContext_init_def instructionInfo_BALANCE warning_def)
  have "append exampleExternals (AssemblyItem_Instruction BALANCE) CompilerContext_init
     = appendItem (AssemblyItem_Instruction BALANCE) (warning 1633
              ''OVM: BALANCE is not implemented in the OVM. (We have no native ETH -- use deposited WETH instead!)''
              CompilerContext_init)"
    by (simp add: append_def cb)
  also have "\<dots> = Inr (CompilerContext_init
         \<lparr>m_asm := Assembly_init\<lparr>m_items := [AssemblyItem_Instruction BALANCE]\<rparr>,
          m_errorReporter :=
            [Warning 1633
               ''OVM: BALANCE is not implemented in the OVM. (We have no native ETH -- use deposited WETH instead!)'']\<rparr>)"
    by (simp add: appendItem_def Assembly_append_def itemDeposit_BALANCE Let_def warning_def
        CompilerContext_init_def Assembly_init_def)
  finally show ?thesis using cb by simp
qed

text \<open>The amended statement at \<open>BALANCE\<close> in a fresh context.\<close>

theorem forbidden_opcode_warned_and_kept_witness:
  "(\<exists>errorId message c'.
      append exampleExternals (AssemblyItem_Instruction BALANCE) CompilerContext_init = Inr c'
      \<and> m_items (m_asm c') = [AssemblyItem_Instruction BALANCE]
      \<and> m_errorReporter c' = [Warning errorId message])"
proof -
  have a: "\<not> m_disable_rewrite CompilerContext_init"
    "m_type (AssemblyItem_Instruction BALANCE) = Operation"
    "forbidden (m_instruction (AssemblyItem_Instruction BALANCE))"
    by (simp_all add: CompilerContext_init_def AssemblyItem_Instruction_def forbidden_def)
  from forbidden_opcode_warned_and_kept [OF a, of exampleExternals] obtain errorId message where
    ap: "append exampleExternals (AssemblyItem_Instruction BALANCE) CompilerContext_init
           = appendItem (AssemblyItem_Instruction BALANCE) (warning errorId message CompilerContext_init)"
    and al: "\<forall>c'. append exampleExternals (AssemblyItem_Instruction BALANCE) CompilerContext_init = Inr c'
          \<longrightarrow> m_items (m_asm c') = m_items (m_asm CompilerContext_init) @ [AssemblyItem_Instruction BALANCE]
            \<and> m_errorReporter c' = m_errorReporter CompilerContext_init @ [Warning errorId message]"
    by blast
  have "\<exists>c'. appendItem (AssemblyItem_Instruction BALANCE) (warning errorId message CompilerContext_init) = Inr c'"
    by (simp add: appendItem_def Assembly_append_def itemDeposit_BALANCE Let_def warning_def
        CompilerContext_init_def Assembly_init_def)
  with ap obtain c' where c': "append exampleExternals (AssemblyItem_Instruction BALANCE) CompilerContext_init = Inr c'"
    by auto
  with al have "m_items (m_asm c') = [AssemblyItem_Instruction BALANCE]
      \<and> m_errorReporter c' = [Warning errorId message]"
    by (simp add: CompilerContext_init_def Assembly_init_def)
  with c' show ?thesis by blast
qed

lemma flag_unchanged: "\<not> m_disable_rewrite c \<Longrightarrow> c\<lparr>m_disable_rewrite := False\<rparr> = c"
  by simp

lemma rewriteOperation_declined:
  "inst = GAS \<or> inst = POP \<or> inst = JUMP \<Longrightarrow> rewriteOperation X inst c = Inr (False, c)"
  unfolding rewriteOperation_def Let_def by (elim disjE) (simp_all only: if_True if_False, simp_all)

lemma append_declined:
  assumes "m_type i = PushTag \<or> m_type i = Tag
           \<or> (m_type i = Operation \<and> (m_instruction i = GAS \<or> m_instruction i = POP \<or> m_instruction i = JUMP))"
  shows "append X i c = appendItem i c"
proof (cases "m_disable_rewrite c")
  case True
  then show ?thesis by (simp add: append_def appendCallback_def)
next
  case False
  from assms have t: "m_type i \<noteq> PushData" by auto
  from assms have "(if m_type i = Operation then rewriteOperation X (m_instruction i) (c\<lparr>m_disable_rewrite := True\<rparr>)
                else Inr (False, c\<lparr>m_disable_rewrite := True\<rparr>)) = Inr (False, c\<lparr>m_disable_rewrite := True\<rparr>)"
    by (auto simp: rewriteOperation_declined)
  with False t have "appendCallback X i c = Inr (False, c\<lparr>m_disable_rewrite := False\<rparr>)"
    by (simp add: appendCallback_def Let_def)
  also have "c\<lparr>m_disable_rewrite := False\<rparr> = c" using False by (rule flag_unchanged)
  finally have "appendCallback X i c = Inr (False, c)" .
  then show ?thesis unfolding append_def by simp
qed

lemma instructionInfo_arities:
  "args (instructionInfo GAS) = 0" "ret (instructionInfo GAS) = 1"
  "args (instructionInfo POP) = 1" "ret (instructionInfo POP) = 0"
  "args (instructionInfo JUMP) = 1" "ret (instructionInfo JUMP) = 0"
  "args (instructionInfo SSTORE) = 2" "ret (instructionInfo SSTORE) = 0"
  "args (instructionInfo SLOAD) = 1" "ret (instructionInfo SLOAD) = 1"
  "args (instructionInfo EXTCODESIZE) = 1" "ret (instructionInfo EXTCODESIZE) = 1"
  "args (instructionInfo EXTCODEHASH) = 1" "ret (instructionInfo EXTCODEHASH) = 1"
  "args (instructionInfo CALLER) = 0" "ret (instructionInfo CALLER) = 1"
  "args (instructionInfo ADDRESS) = 0" "ret (instructionInfo ADDRESS) = 1"
  "args (instructionInfo TIMESTAMP) = 0" "ret (instructionInfo TIMESTAMP) = 1"
  "args (instructionInfo NUMBER) = 0" "ret (instructionInfo NUMBER) = 1"
  "args (instructionInfo CHAINID) = 0" "ret (instructionInfo CHAINID) = 1"
  "args (instructionInfo GASLIMIT) = 0" "ret (instructionInfo GASLIMIT) = 1"
  "args (instructionInfo CALL) = 7" "ret (instructionInfo CALL) = 1"
  "args (instructionInfo STATICCALL) = 6" "ret (instructionInfo STATICCALL) = 1"
  "args (instructionInfo DELEGATECALL) = 6" "ret (instructionInfo DELEGATECALL) = 1"
  "args (instructionInfo REVERT) = 2" "ret (instructionInfo REVERT) = 0"
  "args (instructionInfo CREATE) = 3" "ret (instructionInfo CREATE) = 1"
  "args (instructionInfo CREATE2) = 4" "ret (instructionInfo CREATE2) = 1"
  "args (instructionInfo EXTCODECOPY) = 4" "ret (instructionInfo EXTCODECOPY) = 0"
  by code_simp+

lemma itemDeposit_simps:
  "itemDeposit (AssemblyItem_Instruction GAS) = 1"
  "itemDeposit (AssemblyItem_Instruction POP) = - 1"
  "itemDeposit (setJumpType jumpType (AssemblyItem_Instruction JUMP)) = - 1"
  "m_type t = PushTag \<Longrightarrow> itemDeposit t = 1"
  "m_type t = Tag \<Longrightarrow> itemDeposit t = 0"
  by (simp_all add: itemDeposit_def arguments_def returnValues_def AssemblyItem_Instruction_def
      setJumpType_def instructionInfo_arities)

lemma appendTimes_Inr:
  "appendTimes n i c = Inr c' \<Longrightarrow>
     m_deposit (m_asm c') = m_deposit (m_asm c) + of_nat n * itemDeposit i
     \<and> m_lowLevelFunctions c' = m_lowLevelFunctions c
     \<and> m_lowLevelFunctionGenerationQueue c' = m_lowLevelFunctionGenerationQueue c"
proof (induction n arbitrary: c)
  case 0
  then show ?case by simp
next
  case (Suc n)
  from Suc.prems obtain c1 where a: "appendItem i c = Inr c1" and r: "appendTimes n i c1 = Inr c'"
    by (auto simp: thenE_eq_Inr)
  from appendItem_Inr [OF a] Suc.IH [OF r] show ?case by (simp add: algebra_simps)
qed

lemma tag_Inr: "tag item = Inr t \<Longrightarrow> m_type t = Tag \<and> m_data t = m_data item"
  by (auto simp: tag_def AssemblyItem_Type_def split: if_splits)

lemma pushTag_Inr: "pushTag item = Inr t \<Longrightarrow> m_type t = PushTag \<and> m_data t = m_data item"
  by (auto simp: pushTag_def AssemblyItem_Type_def split: if_splits)

lemma pushNewTag_Inr:
  "pushNewTag c = Inr (t, c') \<Longrightarrow>
     m_type t = Tag
     \<and> m_deposit (m_asm c') = m_deposit (m_asm c) + 1
     \<and> m_lowLevelFunctions c' = m_lowLevelFunctions c
     \<and> m_lowLevelFunctionGenerationQueue c' = m_lowLevelFunctionGenerationQueue c"
proof -
  assume "pushNewTag c = Inr (t, c')"
  then obtain pushed a where n: "newPushTag (m_asm c) = Inr (pushed, a)"
    and ap: "appendItem pushed (c\<lparr>m_asm := a\<rparr>) = Inr c'" and t: "tag pushed = Inr t"
    by (auto simp: pushNewTag_def thenE_eq_Inr)
  from n have p: "m_type pushed = PushTag" "m_deposit a = m_deposit (m_asm c)"
    by (auto simp: newPushTag_def AssemblyItem_Type_def split: if_splits)
  from appendItem_Inr [OF ap] p tag_Inr [OF t] show ?thesis
    by (simp add: itemDeposit_simps)
qed

lemma lowLevelFunctionTag_Inr:
  assumes "lowLevelFunctionTag fname inArgs outArgs gen c = Inr (entry, c')"
  shows "m_deposit (m_asm c') = m_deposit (m_asm c)"
    and "m_lowLevelFunctions c' fname = Some entry"
    and "entriesArePushTags c \<Longrightarrow> m_type entry = PushTag"
    and "registryGrows c c'"
proof -
  show "m_deposit (m_asm c') = m_deposit (m_asm c)"
    using assms
    by (auto simp: lowLevelFunctionTag_def thenE_eq_Inr newTag_def split: option.splits if_splits)
  show "m_lowLevelFunctions c' fname = Some entry"
    using assms
    by (auto simp: lowLevelFunctionTag_def thenE_eq_Inr split: option.splits)
  show "m_type entry = PushTag" if "entriesArePushTags c"
    using assms that
    by (auto simp: lowLevelFunctionTag_def thenE_eq_Inr entriesArePushTags_def
        dest: pushTag_Inr split: option.splits)
  show "registryGrows c c'"
  proof (cases "m_lowLevelFunctions c fname")
    case None
    with assms obtain fresh a where "newTag (m_asm c) = Inr (fresh, a)"
      and e: "pushTag fresh = Inr entry"
      and c': "c' = c\<lparr>m_asm := a,
                   m_lowLevelFunctions := (m_lowLevelFunctions c)(fname \<mapsto> entry),
                   m_lowLevelFunctionGenerationQueue :=
                     m_lowLevelFunctionGenerationQueue c @ [(fname, inArgs, outArgs, gen)]\<rparr>"
      by (auto simp: lowLevelFunctionTag_def thenE_eq_Inr)
    from pushTag_Inr [OF e] None show ?thesis
      by (auto simp: registryGrows_def c')
  next
    case (Some e)
    with assms have "c' = c" by (simp add: lowLevelFunctionTag_def)
    then show ?thesis by (simp add: registryGrows_def)
  qed
qed

lemma registryGrows_entries:
  "registryGrows c c' \<Longrightarrow> entriesArePushTags c \<Longrightarrow> entriesArePushTags c'"
  unfolding registryGrows_def entriesArePushTags_def by blast

lemma entriesArePushTags_cong:
  "m_lowLevelFunctions c' = m_lowLevelFunctions c \<Longrightarrow> entriesArePushTags c' = entriesArePushTags c"
  by (simp add: entriesArePushTags_def)

lemma adjustStackOffset_Inr:
  "adjustStackOffset adjustment c = Inr c' \<Longrightarrow>
     c' = c\<lparr>m_asm := (m_asm c)\<lparr>m_deposit := m_deposit (m_asm c) + adjustment\<rparr>\<rparr>"
  by (auto simp: adjustStackOffset_def adjustDeposit_def Let_def thenE_eq_Inr split: if_splits)

lemma callLowLevelFunction_deposit:
  assumes X: "stackNeutral X" "registryFrame X" and e: "entriesArePushTags c"
    and r: "callLowLevelFunction X fname inArgs outArgs gen c = Inr c'"
  shows "m_deposit (m_asm c') = m_deposit (m_asm c) + (outArgs - inArgs)"
proof -
  from r obtain retTag c1 c2 entry c3 c4 c5 c6 t where
    s1: "pushNewTag c = Inr (retTag, c1)"
    and s2: "moveIntoStack X inArgs c1 = Inr c2"
    and s3: "lowLevelFunctionTag fname inArgs outArgs gen c2 = Inr (entry, c3)"
    and s4: "appendItem entry c3 = Inr c4"
    and s5: "appendJump IntoFunction c4 = Inr c5"
    and s6: "adjustStackOffset (outArgs - 1 - inArgs) c5 = Inr c6"
    and s7: "tag retTag = Inr t"
    and s8: "appendItem t c6 = Inr c'"
    by (auto simp: callLowLevelFunction_def thenE_eq_Inr)
  from pushNewTag_Inr [OF s1] e have d1: "m_deposit (m_asm c1) = m_deposit (m_asm c) + 1"
    and e1: "entriesArePushTags c1" by (simp_all add: entriesArePushTags_def)
  from X(1) s2 have d2: "m_deposit (m_asm c2) = m_deposit (m_asm c1)"
    unfolding stackNeutral_def by blast
  from X(2) s2 have g2: "registryGrows c1 c2"
    unfolding registryFrame_def by blast
  from registryGrows_entries [OF g2 e1] have e2: "entriesArePushTags c2" .
  from lowLevelFunctionTag_Inr(1,3) [OF s3] e2 have d3: "m_deposit (m_asm c3) = m_deposit (m_asm c2)"
    and p: "m_type entry = PushTag" by simp_all
  from appendItem_Inr [OF s4] p have d4: "m_deposit (m_asm c4) = m_deposit (m_asm c3) + 1"
    by (simp add: itemDeposit_simps)
  from appendItem_Inr [OF s5 [unfolded appendJump_def]]
  have d5: "m_deposit (m_asm c5) = m_deposit (m_asm c4) - 1"
    by (simp add: itemDeposit_simps)
  from adjustStackOffset_Inr [OF s6]
  have d6: "m_deposit (m_asm c6) = m_deposit (m_asm c5) + (outArgs - 1 - inArgs)" by simp
  from tag_Inr [OF s7] appendItem_Inr [OF s8]
  have d7: "m_deposit (m_asm c') = m_deposit (m_asm c6)" by (simp add: itemDeposit_simps)
  from d1 d2 d3 d4 d5 d6 d7 show ?thesis by simp
qed

lemma pads_and_pops:
  "(of_nat (nat (o' - i)) :: 32 word) - of_nat (nat (i - o')) = word_of_int (o' - i)"
proof (cases "i \<le> o'")
  case True
  then have "nat (i - o') = 0" by simp
  moreover from True have "(of_nat (nat (o' - i)) :: 32 word) = word_of_int (o' - i)" by simp
  ultimately show ?thesis by simp
next
  case False
  then have "nat (o' - i) = 0" by simp
  moreover from False have "(of_nat (nat (i - o')) :: 32 word) = word_of_int (i - o')" by simp
  ultimately show ?thesis by (simp add: word_of_int_minus [symmetric] del: word_of_int_minus)
qed

lemma complexRewrite_deposit:
  assumes X: "stackNeutral X" "registryFrame X" and e: "entriesArePushTags c"
    and r: "complexRewrite X function in_arity out_arity code localVariables optimize c = Inr c'"
  shows "m_deposit (m_asm c') = m_deposit (m_asm c) + word_of_int (out_arity - in_arity)"
proof -
  from r obtain c1 c2 where
    s1: "appendTimes (nat (out_arity - in_arity)) (AssemblyItem_Instruction GAS) c = Inr c1"
    and s2: "(if optimize
            then callLowLevelFunction X function 0 0
                   (RewriteGenerator function code localVariables) c1
            else appendInlineAssembly X function code localVariables c1) = Inr c2"
    and s3: "appendTimes (nat (in_arity - out_arity)) (AssemblyItem_Instruction POP) c2 = Inr c'"
    by (auto simp: complexRewrite_def thenE_eq_Inr)
  from appendTimes_Inr [OF s1] e
  have d1: "m_deposit (m_asm c1) = m_deposit (m_asm c) + of_nat (nat (out_arity - in_arity))"
    and e1: "entriesArePushTags c1"
    by (simp_all add: itemDeposit_simps entriesArePushTags_def)
  have d2: "m_deposit (m_asm c2) = m_deposit (m_asm c1)"
  proof (cases optimize)
    case True
    with s2 callLowLevelFunction_deposit [OF X e1] show ?thesis by simp
  next
    case False
    with s2 X(1) show ?thesis unfolding stackNeutral_def by auto
  qed
  from appendTimes_Inr [OF s3]
  have d3: "m_deposit (m_asm c') = m_deposit (m_asm c2) - of_nat (nat (in_arity - out_arity))"
    by (simp add: itemDeposit_simps)
  from d1 d2 d3 pads_and_pops [of out_arity in_arity] show ?thesis by simp
qed

lemma appendTimes_exact:
  "appendTimes n i c = Inr c' \<Longrightarrow>
     c' = c\<lparr>m_asm := (m_asm c)\<lparr>m_deposit := m_deposit (m_asm c) + of_nat n * itemDeposit i,
                                m_items := m_items (m_asm c) @ replicate n i\<rparr>\<rparr>"
proof (induction n arbitrary: c)
  case 0
  then show ?case by simp
next
  case (Suc n)
  from Suc.prems obtain c1 where a: "appendItem i c = Inr c1" and r: "appendTimes n i c1 = Inr c'"
    by (auto simp: thenE_eq_Inr)
  from Suc.IH [OF r] appendItem_Inr [OF a] show ?case
    by (simp add: algebra_simps replicate_app_Cons_same)
qed

lemma pushNewTag_exact:
  assumes "pushNewTag c = Inr (t, c')"
  shows "t = AssemblyItem_Type Tag (m_usedTags (m_asm c))"
    and "c' = c\<lparr>m_asm := (m_asm c)\<lparr>m_usedTags := m_usedTags (m_asm c) + 1,
                   m_items := m_items (m_asm c) @ [AssemblyItem_Type PushTag (m_usedTags (m_asm c))],
                   m_deposit := m_deposit (m_asm c) + 1\<rparr>\<rparr>"
proof -
  from assms obtain pushed a where n: "newPushTag (m_asm c) = Inr (pushed, a)"
    and ap: "appendItem pushed (c\<lparr>m_asm := a\<rparr>) = Inr c'" and t: "tag pushed = Inr t"
    by (auto simp: pushNewTag_def thenE_eq_Inr)
  from n have p: "pushed = AssemblyItem_Type PushTag (m_usedTags (m_asm c))"
    "a = (m_asm c)\<lparr>m_usedTags := m_usedTags (m_asm c) + 1\<rparr>"
    by (auto simp: newPushTag_def split: if_splits)
  from t p show "t = AssemblyItem_Type Tag (m_usedTags (m_asm c))"
    by (auto simp: tag_def AssemblyItem_Type_def split: if_splits)
  have "m_type (AssemblyItem_Type PushTag (m_usedTags (m_asm c))) = PushTag"
    by (simp add: AssemblyItem_Type_def)
  with appendItem_Inr [OF ap] p
  show "c' = c\<lparr>m_asm := (m_asm c)\<lparr>m_usedTags := m_usedTags (m_asm c) + 1,
                   m_items := m_items (m_asm c) @ [AssemblyItem_Type PushTag (m_usedTags (m_asm c))],
                   m_deposit := m_deposit (m_asm c) + 1\<rparr>\<rparr>"
    by (simp add: itemDeposit_simps)
qed

lemma lowLevelFunctionTag_items:
  "lowLevelFunctionTag fname inArgs outArgs gen c = Inr (entry, c') \<Longrightarrow>
     m_items (m_asm c') = m_items (m_asm c)"
  by (auto simp: lowLevelFunctionTag_def thenE_eq_Inr newTag_def split: option.splits if_splits)

lemma callLowLevelFunction_items:
  assumes r: "callLowLevelFunction X fname inArgs outArgs gen c = Inr c'"
  shows "\<exists>c2 entry.
           moveIntoStack X inArgs
             (c\<lparr>m_asm := (m_asm c)\<lparr>m_usedTags := m_usedTags (m_asm c) + 1,
                   m_items := m_items (m_asm c) @ [AssemblyItem_Type PushTag (m_usedTags (m_asm c))],
                   m_deposit := m_deposit (m_asm c) + 1\<rparr>\<rparr>) = Inr c2
           \<and> m_lowLevelFunctions c' fname = Some entry
           \<and> m_items (m_asm c') = m_items (m_asm c2)
               @ [entry, setJumpType IntoFunction (AssemblyItem_Instruction JUMP),
                  AssemblyItem_Type Tag (m_usedTags (m_asm c))]"
proof -
  from r obtain retTag c1 c2 entry c3 c4 c5 c6 t where
    s1: "pushNewTag c = Inr (retTag, c1)"
    and s2: "moveIntoStack X inArgs c1 = Inr c2"
    and s3: "lowLevelFunctionTag fname inArgs outArgs gen c2 = Inr (entry, c3)"
    and s4: "appendItem entry c3 = Inr c4"
    and s5: "appendJump IntoFunction c4 = Inr c5"
    and s6: "adjustStackOffset (outArgs - 1 - inArgs) c5 = Inr c6"
    and s7: "tag retTag = Inr t"
    and s8: "appendItem t c6 = Inr c'"
    by (auto simp: callLowLevelFunction_def thenE_eq_Inr)
  note p = pushNewTag_exact [OF s1]
  from s7 p(1) have t: "t = AssemblyItem_Type Tag (m_usedTags (m_asm c))"
    by (auto simp: tag_def AssemblyItem_Type_def split: if_splits)
  from lowLevelFunctionTag_Inr(2) [OF s3] have e3: "m_lowLevelFunctions c3 fname = Some entry" .
  from lowLevelFunctionTag_items [OF s3] have i3: "m_items (m_asm c3) = m_items (m_asm c2)" .
  from appendItem_Inr [OF s4] appendItem_Inr [OF s5 [unfolded appendJump_def]]
    adjustStackOffset_Inr [OF s6] appendItem_Inr [OF s8] e3 i3 t
  have "m_lowLevelFunctions c' fname = Some entry
     \<and> m_items (m_asm c') = m_items (m_asm c2)
               @ [entry, setJumpType IntoFunction (AssemblyItem_Instruction JUMP),
                  AssemblyItem_Type Tag (m_usedTags (m_asm c))]"
    by simp
  with s2 p(2) show ?thesis by blast
qed

lemma complexRewrite_items:
  assumes r: "complexRewrite X function in_arity out_arity code localVariables optimize c = Inr c'"
  shows "(optimize \<longrightarrow>
           (\<exists>c2 entry.
              moveIntoStack X 0
                (c\<lparr>m_asm := (m_asm c)\<lparr>m_usedTags := m_usedTags (m_asm c) + 1,
                      m_items := m_items (m_asm c)
                        @ replicate (nat (out_arity - in_arity)) (AssemblyItem_Instruction GAS)
                        @ [AssemblyItem_Type PushTag (m_usedTags (m_asm c))],
                      m_deposit := m_deposit (m_asm c) + of_nat (nat (out_arity - in_arity)) + 1\<rparr>\<rparr>)
                = Inr c2
              \<and> m_lowLevelFunctions c' function = Some entry
              \<and> m_items (m_asm c') = m_items (m_asm c2)
                  @ [entry, setJumpType IntoFunction (AssemblyItem_Instruction JUMP),
                     AssemblyItem_Type Tag (m_usedTags (m_asm c))]
                  @ replicate (nat (in_arity - out_arity)) (AssemblyItem_Instruction POP)))
       \<and> (\<not> optimize \<longrightarrow>
           (\<exists>c2.
              appendInlineAssembly X function code localVariables
                (c\<lparr>m_asm := (m_asm c)\<lparr>
                      m_items := m_items (m_asm c)
                        @ replicate (nat (out_arity - in_arity)) (AssemblyItem_Instruction GAS),
                      m_deposit := m_deposit (m_asm c) + of_nat (nat (out_arity - in_arity))\<rparr>\<rparr>)
                = Inr c2
              \<and> m_items (m_asm c') = m_items (m_asm c2)
                  @ replicate (nat (in_arity - out_arity)) (AssemblyItem_Instruction POP)))"
proof -
  from r obtain c1 c2 where
    s1: "appendTimes (nat (out_arity - in_arity)) (AssemblyItem_Instruction GAS) c = Inr c1"
    and s2: "(if optimize
            then callLowLevelFunction X function 0 0
                   (RewriteGenerator function code localVariables) c1
            else appendInlineAssembly X function code localVariables c1) = Inr c2"
    and s3: "appendTimes (nat (in_arity - out_arity)) (AssemblyItem_Instruction POP) c2 = Inr c'"
    by (auto simp: complexRewrite_def thenE_eq_Inr)
  from appendTimes_exact [OF s1]
  have c1: "c1 = c\<lparr>m_asm := (m_asm c)\<lparr>
                      m_items := m_items (m_asm c)
                        @ replicate (nat (out_arity - in_arity)) (AssemblyItem_Instruction GAS),
                      m_deposit := m_deposit (m_asm c) + of_nat (nat (out_arity - in_arity))\<rparr>\<rparr>"
    by (simp add: itemDeposit_simps)
  from appendTimes_exact [OF s3]
  have c': "m_items (m_asm c') = m_items (m_asm c2)
               @ replicate (nat (in_arity - out_arity)) (AssemblyItem_Instruction POP)"
    and l': "m_lowLevelFunctions c' = m_lowLevelFunctions c2"
    by simp_all
  show ?thesis
  proof (cases optimize)
    case True
    with s2 have "callLowLevelFunction X function 0 0
                   (RewriteGenerator function code localVariables) c1 = Inr c2" by simp
    from callLowLevelFunction_items [OF this] obtain c2' entry where
      m: "moveIntoStack X 0
             (c1\<lparr>m_asm := (m_asm c1)\<lparr>m_usedTags := m_usedTags (m_asm c1) + 1,
                   m_items := m_items (m_asm c1) @ [AssemblyItem_Type PushTag (m_usedTags (m_asm c1))],
                   m_deposit := m_deposit (m_asm c1) + 1\<rparr>\<rparr>) = Inr c2'"
      and e: "m_lowLevelFunctions c2 function = Some entry"
      and i: "m_items (m_asm c2) = m_items (m_asm c2')
               @ [entry, setJumpType IntoFunction (AssemblyItem_Instruction JUMP),
                  AssemblyItem_Type Tag (m_usedTags (m_asm c1))]"
      by blast
    from m have m': "moveIntoStack X 0
                (c\<lparr>m_asm := (m_asm c)\<lparr>m_usedTags := m_usedTags (m_asm c) + 1,
                      m_items := m_items (m_asm c)
                        @ replicate (nat (out_arity - in_arity)) (AssemblyItem_Instruction GAS)
                        @ [AssemblyItem_Type PushTag (m_usedTags (m_asm c))],
                      m_deposit := m_deposit (m_asm c) + of_nat (nat (out_arity - in_arity)) + 1\<rparr>\<rparr>)
                = Inr c2'"
      unfolding c1 by simp
    from i c' c1 have "m_items (m_asm c') = m_items (m_asm c2')
                  @ [entry, setJumpType IntoFunction (AssemblyItem_Instruction JUMP),
                     AssemblyItem_Type Tag (m_usedTags (m_asm c))]
                  @ replicate (nat (in_arity - out_arity)) (AssemblyItem_Instruction POP)"
      by simp
    with True m' e l' show ?thesis by auto
  next
    case False
    with s2 c1 c' show ?thesis by auto
  qed
qed

lemma replaced_Inr: "thenE r (\<lambda>x. Inr (True, x)) = Inr (b, c') \<Longrightarrow> b \<and> r = Inr c'"
  by (cases r) simp_all

lemma simpleRewrite_Inr:
  "simpleRewrite X function i o' optimize c = Inr c' \<Longrightarrow>
     complexRewrite X function i o' (SimpleYUL i o') [''x2'', ''x1''] optimize c = Inr c'"
  by (simp add: simpleRewrite_def split: if_splits)

lemma rewriteOperation_complex:
  assumes r: "rewriteOperation X instruction c = Inr (True, c')"
  shows "\<exists>function in_arity out_arity code localVariables optimize.
           complexRewrite X function in_arity out_arity code localVariables optimize c = Inr c'
           \<and> out_arity - in_arity
               = ret (instructionInfo instruction) - args (instructionInfo instruction)"
proof -
  consider
      (SSTORE) "instruction = SSTORE"
    | (SLOAD) "instruction = SLOAD"
    | (EXTCODESIZE) "instruction = EXTCODESIZE"
    | (EXTCODEHASH) "instruction = EXTCODEHASH"
    | (CALLER) "instruction = CALLER"
    | (ADDRESS) "instruction = ADDRESS"
    | (TIMESTAMP) "instruction = TIMESTAMP"
    | (NUMBER) "instruction = NUMBER"
    | (CHAINID) "instruction = CHAINID"
    | (GASLIMIT) "instruction = GASLIMIT"
    | (CALL) "instruction = CALL"
    | (STATICCALL) "instruction = STATICCALL"
    | (DELEGATECALL) "instruction = DELEGATECALL"
    | (REVERT) "instruction = REVERT"
    | (CREATE) "instruction = CREATE"
    | (CREATE2) "instruction = CREATE2"
    | (EXTCODECOPY) "instruction = EXTCODECOPY"
    | (none) "instruction \<noteq> SSTORE \<and> instruction \<noteq> SLOAD \<and> instruction \<noteq> EXTCODESIZE \<and> instruction \<noteq> EXTCODEHASH \<and> instruction \<noteq> CALLER \<and> instruction \<noteq> ADDRESS \<and> instruction \<noteq> TIMESTAMP \<and> instruction \<noteq> NUMBER \<and> instruction \<noteq> CHAINID \<and> instruction \<noteq> GASLIMIT \<and> instruction \<noteq> CALL \<and> instruction \<noteq> STATICCALL \<and> instruction \<noteq> DELEGATECALL \<and> instruction \<noteq> REVERT \<and> instruction \<noteq> CREATE \<and> instruction \<noteq> CREATE2 \<and> instruction \<noteq> EXTCODECOPY"
    by blast
  then show ?thesis
  proof cases
    case SSTORE
    with r have "thenE (simpleRewrite X ''ovmSSTORE(bytes32,bytes32)'' 2 0 True c) (\<lambda>x. Inr (True, x)) = Inr (True, c')"
      unfolding rewriteOperation_def Let_def by simp
    from replaced_Inr [OF this] have "simpleRewrite X ''ovmSSTORE(bytes32,bytes32)'' 2 0 True c = Inr c'" by simp
    from simpleRewrite_Inr [OF this]
    have "complexRewrite X ''ovmSSTORE(bytes32,bytes32)'' 2 0 (SimpleYUL 2 0) [''x2'', ''x1''] True c = Inr c'" .
    moreover have "(0::int) - 2 = ret (instructionInfo instruction) - args (instructionInfo instruction)"
      unfolding SSTORE by (simp add: instructionInfo_arities)
    ultimately show ?thesis by blast
  next
    case SLOAD
    with r have "thenE (simpleRewrite X ''ovmSLOAD(bytes32)'' 1 1 True c) (\<lambda>x. Inr (True, x)) = Inr (True, c')"
      unfolding rewriteOperation_def Let_def by simp
    from replaced_Inr [OF this] have "simpleRewrite X ''ovmSLOAD(bytes32)'' 1 1 True c = Inr c'" by simp
    from simpleRewrite_Inr [OF this]
    have "complexRewrite X ''ovmSLOAD(bytes32)'' 1 1 (SimpleYUL 1 1) [''x2'', ''x1''] True c = Inr c'" .
    moreover have "(1::int) - 1 = ret (instructionInfo instruction) - args (instructionInfo instruction)"
      unfolding SLOAD by (simp add: instructionInfo_arities)
    ultimately show ?thesis by blast
  next
    case EXTCODESIZE
    with r have "thenE (simpleRewrite X ''ovmEXTCODESIZE(address)'' 1 1 True c) (\<lambda>x. Inr (True, x)) = Inr (True, c')"
      unfolding rewriteOperation_def Let_def by simp
    from replaced_Inr [OF this] have "simpleRewrite X ''ovmEXTCODESIZE(address)'' 1 1 True c = Inr c'" by simp
    from simpleRewrite_Inr [OF this]
    have "complexRewrite X ''ovmEXTCODESIZE(address)'' 1 1 (SimpleYUL 1 1) [''x2'', ''x1''] True c = Inr c'" .
    moreover have "(1::int) - 1 = ret (instructionInfo instruction) - args (instructionInfo instruction)"
      unfolding EXTCODESIZE by (simp add: instructionInfo_arities)
    ultimately show ?thesis by blast
  next
    case EXTCODEHASH
    with r have "thenE (simpleRewrite X ''ovmEXTCODEHASH(address)'' 1 1 True c) (\<lambda>x. Inr (True, x)) = Inr (True, c')"
      unfolding rewriteOperation_def Let_def by simp
    from replaced_Inr [OF this] have "simpleRewrite X ''ovmEXTCODEHASH(address)'' 1 1 True c = Inr c'" by simp
    from simpleRewrite_Inr [OF this]
    have "complexRewrite X ''ovmEXTCODEHASH(address)'' 1 1 (SimpleYUL 1 1) [''x2'', ''x1''] True c = Inr c'" .
    moreover have "(1::int) - 1 = ret (instructionInfo instruction) - args (instructionInfo instruction)"
      unfolding EXTCODEHASH by (simp add: instructionInfo_arities)
    ultimately show ?thesis by blast
  next
    case CALLER
    with r have "thenE (simpleRewrite X ''ovmCALLER()'' 0 1 True c) (\<lambda>x. Inr (True, x)) = Inr (True, c')"
      unfolding rewriteOperation_def Let_def by simp
    from replaced_Inr [OF this] have "simpleRewrite X ''ovmCALLER()'' 0 1 True c = Inr c'" by simp
    from simpleRewrite_Inr [OF this]
    have "complexRewrite X ''ovmCALLER()'' 0 1 (SimpleYUL 0 1) [''x2'', ''x1''] True c = Inr c'" .
    moreover have "(1::int) - 0 = ret (instructionInfo instruction) - args (instructionInfo instruction)"
      unfolding CALLER by (simp add: instructionInfo_arities)
    ultimately show ?thesis by blast
  next
    case ADDRESS
    with r have "thenE (simpleRewrite X ''ovmADDRESS()'' 0 1 False c) (\<lambda>x. Inr (True, x)) = Inr (True, c')"
      unfolding rewriteOperation_def Let_def by simp
    from replaced_Inr [OF this] have "simpleRewrite X ''ovmADDRESS()'' 0 1 False c = Inr c'" by simp
    from simpleRewrite_Inr [OF this]
    have "complexRewrite X ''ovmADDRESS()'' 0 1 (SimpleYUL 0 1) [''x2'', ''x1''] False c = Inr c'" .
    moreover have "(1::int) - 0 = ret (instructionInfo instruction) - args (instructionInfo instruction)"
      unfolding ADDRESS by (simp add: instructionInfo_arities)
    ultimately show ?thesis by blast
  next
    case TIMESTAMP
    with r have "thenE (simpleRewrite X ''ovmTIMESTAMP()'' 0 1 True c) (\<lambda>x. Inr (True, x)) = Inr (True, c')"
      unfolding rewriteOperation_def Let_def by simp
    from replaced_Inr [OF this] have "simpleRewrite X ''ovmTIMESTAMP()'' 0 1 True c = Inr c'" by simp
    from simpleRewrite_Inr [OF this]
    have "complexRewrite X ''ovmTIMESTAMP()'' 0 1 (SimpleYUL 0 1) [''x2'', ''x1''] True c = Inr c'" .
    moreover have "(1::int) - 0 = ret (instructionInfo instruction) - args (instructionInfo instruction)"
      unfolding TIMESTAMP by (simp add: instructionInfo_arities)
    ultimately show ?thesis by blast
  next
    case NUMBER
    with r have "thenE (simpleRewrite X ''ovmNUMBER()'' 0 1 True c) (\<lambda>x. Inr (True, x)) = Inr (True, c')"
      unfolding rewriteOperation_def Let_def by simp
    from replaced_Inr [OF this] have "simpleRewrite X ''ovmNUMBER()'' 0 1 True c = Inr c'" by simp
    from simpleRewrite_Inr [OF this]
    have "complexRewrite X ''ovmNUMBER()'' 0 1 (SimpleYUL 0 1) [''x2'', ''x1''] True c = Inr c'" .
    moreover have "(1::int) - 0 = ret (instructionInfo instruction) - args (instructionInfo instruction)"
      unfolding NUMBER by (simp add: instructionInfo_arities)
    ultimately show ?thesis by blast
  next
    case CHAINID
    with r have "thenE (simpleRewrite X ''ovmCHAINID()'' 0 1 True c) (\<lambda>x. Inr (True, x)) = Inr (True, c')"
      unfolding rewriteOperation_def Let_def by simp
    from replaced_Inr [OF this] have "simpleRewrite X ''ovmCHAINID()'' 0 1 True c = Inr c'" by simp
    from simpleRewrite_Inr [OF this]
    have "complexRewrite X ''ovmCHAINID()'' 0 1 (SimpleYUL 0 1) [''x2'', ''x1''] True c = Inr c'" .
    moreover have "(1::int) - 0 = ret (instructionInfo instruction) - args (instructionInfo instruction)"
      unfolding CHAINID by (simp add: instructionInfo_arities)
    ultimately show ?thesis by blast
  next
    case GASLIMIT
    with r have "thenE (simpleRewrite X ''ovmGASLIMIT()'' 0 1 True c) (\<lambda>x. Inr (True, x)) = Inr (True, c')"
      unfolding rewriteOperation_def Let_def by simp
    from replaced_Inr [OF this] have "simpleRewrite X ''ovmGASLIMIT()'' 0 1 True c = Inr c'" by simp
    from simpleRewrite_Inr [OF this]
    have "complexRewrite X ''ovmGASLIMIT()'' 0 1 (SimpleYUL 0 1) [''x2'', ''x1''] True c = Inr c'" .
    moreover have "(1::int) - 0 = ret (instructionInfo instruction) - args (instructionInfo instruction)"
      unfolding GASLIMIT by (simp add: instructionInfo_arities)
    ultimately show ?thesis by blast
  next
    case CALL
    with r have "thenE (complexRewrite X ''ovmCALL(uint256,address,bytes)'' 7 1 CallYUL
          [''retLength'', ''retOffset'', ''argsLength'', ''argsOffset'', ''value'', ''addr'', ''in_gas''] True c) (\<lambda>x. Inr (True, x)) = Inr (True, c')"
      unfolding rewriteOperation_def Let_def by simp
    from replaced_Inr [OF this] have "complexRewrite X ''ovmCALL(uint256,address,bytes)'' 7 1 CallYUL
          [''retLength'', ''retOffset'', ''argsLength'', ''argsOffset'', ''value'', ''addr'', ''in_gas''] True c = Inr c'" by simp
    then have "complexRewrite X ''ovmCALL(uint256,address,bytes)'' 7 1 CallYUL
          [''retLength'', ''retOffset'', ''argsLength'', ''argsOffset'', ''value'', ''addr'', ''in_gas''] True c = Inr c'" .
    moreover have "(1::int) - 7 = ret (instructionInfo instruction) - args (instructionInfo instruction)"
      unfolding CALL by (simp add: instructionInfo_arities)
    ultimately show ?thesis by blast
  next
    case STATICCALL
    with r have "thenE (complexRewrite X ''ovmSTATICCALL(uint256,address,bytes)'' 6 1 CallYUL
          [''retLength'', ''retOffset'', ''argsLength'', ''argsOffset'', ''addr'', ''in_gas''] True c) (\<lambda>x. Inr (True, x)) = Inr (True, c')"
      unfolding rewriteOperation_def Let_def by simp
    from replaced_Inr [OF this] have "complexRewrite X ''ovmSTATICCALL(uint256,address,bytes)'' 6 1 CallYUL
          [''retLength'', ''retOffset'', ''argsLength'', ''argsOffset'', ''addr'', ''in_gas''] True c = Inr c'" by simp
    then have "complexRewrite X ''ovmSTATICCALL(uint256,address,bytes)'' 6 1 CallYUL
          [''retLength'', ''retOffset'', ''argsLength'', ''argsOffset'', ''addr'', ''in_gas''] True c = Inr c'" .
    moreover have "(1::int) - 6 = ret (instructionInfo instruction) - args (instructionInfo instruction)"
      unfolding STATICCALL by (simp add: instructionInfo_arities)
    ultimately show ?thesis by blast
  next
    case DELEGATECALL
    with r have "thenE (complexRewrite X ''ovmDELEGATECALL(uint256,address,bytes)'' 6 1 CallYUL
          [''retLength'', ''retOffset'', ''argsLength'', ''argsOffset'', ''addr'', ''in_gas''] True c) (\<lambda>x. Inr (True, x)) = Inr (True, c')"
      unfolding rewriteOperation_def Let_def by simp
    from replaced_Inr [OF this] have "complexRewrite X ''ovmDELEGATECALL(uint256,address,bytes)'' 6 1 CallYUL
          [''retLength'', ''retOffset'', ''argsLength'', ''argsOffset'', ''addr'', ''in_gas''] True c = Inr c'" by simp
    then have "complexRewrite X ''ovmDELEGATECALL(uint256,address,bytes)'' 6 1 CallYUL
          [''retLength'', ''retOffset'', ''argsLength'', ''argsOffset'', ''addr'', ''in_gas''] True c = Inr c'" .
    moreover have "(1::int) - 6 = ret (instructionInfo instruction) - args (instructionInfo instruction)"
      unfolding DELEGATECALL by (simp add: instructionInfo_arities)
    ultimately show ?thesis by blast
  next
    case REVERT
    with r have "thenE (complexRewrite X ''ovmREVERT(bytes)'' 2 0 RevertYUL
          [''length'', ''offset''] True c) (\<lambda>x. Inr (True, x)) = Inr (True, c')"
      unfolding rewriteOperation_def Let_def by simp
    from replaced_Inr [OF this] have "complexRewrite X ''ovmREVERT(bytes)'' 2 0 RevertYUL
          [''length'', ''offset''] True c = Inr c'" by simp
    then have "complexRewrite X ''ovmREVERT(bytes)'' 2 0 RevertYUL
          [''length'', ''offset''] True c = Inr c'" .
    moreover have "(0::int) - 2 = ret (instructionInfo instruction) - args (instructionInfo instruction)"
      unfolding REVERT by (simp add: instructionInfo_arities)
    ultimately show ?thesis by blast
  next
    case CREATE
    with r have "thenE (complexRewrite X ''ovmCREATE(bytes)'' 3 1 CreateYUL
          [''length'', ''offset'', ''value''] True c) (\<lambda>x. Inr (True, x)) = Inr (True, c')"
      unfolding rewriteOperation_def Let_def by simp
    from replaced_Inr [OF this] have "complexRewrite X ''ovmCREATE(bytes)'' 3 1 CreateYUL
          [''length'', ''offset'', ''value''] True c = Inr c'" by simp
    then have "complexRewrite X ''ovmCREATE(bytes)'' 3 1 CreateYUL
          [''length'', ''offset'', ''value''] True c = Inr c'" .
    moreover have "(1::int) - 3 = ret (instructionInfo instruction) - args (instructionInfo instruction)"
      unfolding CREATE by (simp add: instructionInfo_arities)
    ultimately show ?thesis by blast
  next
    case CREATE2
    with r have "thenE (complexRewrite X ''ovmCREATE2(bytes,bytes32)'' 4 1 Create2YUL
          [''salt'', ''length'', ''offset'', ''value''] True c) (\<lambda>x. Inr (True, x)) = Inr (True, c')"
      unfolding rewriteOperation_def Let_def by simp
    from replaced_Inr [OF this] have "complexRewrite X ''ovmCREATE2(bytes,bytes32)'' 4 1 Create2YUL
          [''salt'', ''length'', ''offset'', ''value''] True c = Inr c'" by simp
    then have "complexRewrite X ''ovmCREATE2(bytes,bytes32)'' 4 1 Create2YUL
          [''salt'', ''length'', ''offset'', ''value''] True c = Inr c'" .
    moreover have "(1::int) - 4 = ret (instructionInfo instruction) - args (instructionInfo instruction)"
      unfolding CREATE2 by (simp add: instructionInfo_arities)
    ultimately show ?thesis by blast
  next
    case EXTCODECOPY
    with r have "thenE (complexRewrite X ''ovmEXTCODECOPY(address,uint256,uint256)'' 4 0 ExtCodeCopyYUL
          [''length'', ''offset'', ''destOffset'', ''addr''] True c) (\<lambda>x. Inr (True, x)) = Inr (True, c')"
      unfolding rewriteOperation_def Let_def by simp
    from replaced_Inr [OF this] have "complexRewrite X ''ovmEXTCODECOPY(address,uint256,uint256)'' 4 0 ExtCodeCopyYUL
          [''length'', ''offset'', ''destOffset'', ''addr''] True c = Inr c'" by simp
    then have "complexRewrite X ''ovmEXTCODECOPY(address,uint256,uint256)'' 4 0 ExtCodeCopyYUL
          [''length'', ''offset'', ''destOffset'', ''addr''] True c = Inr c'" .
    moreover have "(0::int) - 4 = ret (instructionInfo instruction) - args (instructionInfo instruction)"
      unfolding EXTCODECOPY by (simp add: instructionInfo_arities)
    ultimately show ?thesis by blast
  next
    case none
    with r show ?thesis
      unfolding rewriteOperation_def Let_def by (simp split: if_splits)
  qed
qed

lemma rewriteOperation_deposit:
  assumes X: "stackNeutral X" "registryFrame X" and e: "entriesArePushTags c"
    and r: "rewriteOperation X instruction c = Inr (True, c')"
  shows "m_deposit (m_asm c') = m_deposit (m_asm c)
           + word_of_int (ret (instructionInfo instruction) - args (instructionInfo instruction))"
proof -
  from rewriteOperation_complex [OF r]
  obtain signature in_arity out_arity code localVariables optimize where
    "complexRewrite X signature in_arity out_arity code localVariables optimize c = Inr c'"
    and "out_arity - in_arity
               = ret (instructionInfo instruction) - args (instructionInfo instruction)"
    by blast
  with complexRewrite_deposit [OF X e] show ?thesis by metis
qed

lemma registryGrows_refl: "registryGrows c c"
  by (simp add: registryGrows_def)

lemma stackNeutral_example: "stackNeutral exampleExternals"
  by (simp add: stackNeutral_def exampleExternals_def)

lemma registryFrame_example: "registryFrame exampleExternals"
  by (auto simp: registryFrame_def exampleExternals_def registryGrows_refl thenE_eq_Inr
      dest: lowLevelFunctionTag_Inr(4))

lemma entriesArePushTags_init: "entriesArePushTags (context_with height)"
  by (simp add: entriesArePushTags_def context_with_def CompilerContext_init_def)

lemma appendTimes_numeral:
  "appendTimes (numeral n) i c = thenE (appendItem i c) (appendTimes (pred_numeral n) i)"
  by (simp add: numeral_eq_Suc)

lemma appendCallback_replaced:
  assumes "appendCallback X i c = Inr (True, c')"
  shows "m_type i = Operation
     \<and> (\<exists>c3. rewriteOperation X (m_instruction i) (c\<lparr>m_disable_rewrite := True\<rparr>) = Inr (True, c3)
            \<and> c' = c3\<lparr>m_disable_rewrite := False\<rparr>)"
proof -
  from assms have nd: "\<not> m_disable_rewrite c"
    by (auto simp: appendCallback_def)
  show ?thesis
  proof (cases "m_type i = Operation")
    case True
    with assms nd show ?thesis
      by (auto simp: appendCallback_def Let_def thenE_eq_Inr)
  next
    case False
    with assms nd show ?thesis
      by (auto simp: appendCallback_def Let_def thenE_eq_Inr split: if_splits option.splits)
  qed
qed


text \<open>
  C1. \<open>complexRewrite\<close> with arities \<open>in\<close> and \<open>out\<close> appends \<open>max(0, out - in)\<close> times \<open>GAS\<close> as
  padding, then the helper call (the push of a fresh return tag, what \<open>moveIntoStack(0)\<close>
  emits, the push of the helper's entry tag, the jump into the function and the return
  tag), then \<open>max(0, in - out)\<close> times \<open>POP\<close>; without \<open>optimize\<close> the inline assembly stands
  in place of the call. With an inline-assembly pipeline and stack shuffles that leave the
  deposit where it was, the deposit changes by \<open>out - in\<close>. Whenever the hook replaces an
  item, the item is an operation, what is emitted is this sequence for arities whose
  difference is the returns less the arguments of the opcode, and the deposit ends where
  appending the opcode itself would leave it.
\<close>

theorem rewrite_keeps_stack_delta:
  assumes "stackNeutral X" and "registryFrame X" and "entriesArePushTags c"
  shows "(complexRewrite X function in_arity out_arity code localVariables optimize c = Inr c'
            \<longrightarrow> m_deposit (m_asm c') = m_deposit (m_asm c) + word_of_int (out_arity - in_arity)
              \<and> (optimize \<longrightarrow>
                   (\<exists>c2 entry.
                      moveIntoStack X 0
                        (c\<lparr>m_asm := (m_asm c)\<lparr>m_usedTags := m_usedTags (m_asm c) + 1,
                              m_items := m_items (m_asm c)
                                @ replicate (nat (out_arity - in_arity)) (AssemblyItem_Instruction GAS)
                                @ [AssemblyItem_Type PushTag (m_usedTags (m_asm c))],
                              m_deposit := m_deposit (m_asm c)
                                + of_nat (nat (out_arity - in_arity)) + 1\<rparr>\<rparr>)
                        = Inr c2
                      \<and> m_lowLevelFunctions c' function = Some entry
                      \<and> m_items (m_asm c') = m_items (m_asm c2)
                          @ [entry, setJumpType IntoFunction (AssemblyItem_Instruction JUMP),
                             AssemblyItem_Type Tag (m_usedTags (m_asm c))]
                          @ replicate (nat (in_arity - out_arity)) (AssemblyItem_Instruction POP)))
              \<and> (\<not> optimize \<longrightarrow>
                   (\<exists>c2.
                      appendInlineAssembly X function code localVariables
                        (c\<lparr>m_asm := (m_asm c)\<lparr>
                              m_items := m_items (m_asm c)
                                @ replicate (nat (out_arity - in_arity)) (AssemblyItem_Instruction GAS),
                              m_deposit := m_deposit (m_asm c)
                                + of_nat (nat (out_arity - in_arity))\<rparr>\<rparr>)
                        = Inr c2
                      \<and> m_items (m_asm c') = m_items (m_asm c2)
                          @ replicate (nat (in_arity - out_arity)) (AssemblyItem_Instruction POP))))
       \<and> (appendCallback X i c = Inr (True, c'')
            \<longrightarrow> m_type i = Operation
              \<and> m_deposit (m_asm c'') = m_deposit (m_asm c)
                    + word_of_int (ret (instructionInfo (m_instruction i))
                                   - args (instructionInfo (m_instruction i)))
              \<and> (\<forall>d. appendItem i c = Inr d \<longrightarrow> m_deposit (m_asm d) = m_deposit (m_asm c''))
              \<and> (\<exists>signature in_arity' out_arity' code' localVariables' optimize' c3.
                    complexRewrite X signature in_arity' out_arity' code' localVariables' optimize'
                      (c\<lparr>m_disable_rewrite := True\<rparr>) = Inr c3
                    \<and> c'' = c3\<lparr>m_disable_rewrite := False\<rparr>
                    \<and> out_arity' - in_arity'
                        = ret (instructionInfo (m_instruction i))
                          - args (instructionInfo (m_instruction i))))"
proof (intro conjI impI)
  assume "complexRewrite X function in_arity out_arity code localVariables optimize c = Inr c'"
  from complexRewrite_deposit [OF assms this]
  show "m_deposit (m_asm c') = m_deposit (m_asm c) + word_of_int (out_arity - in_arity)" .
next
  assume r: "complexRewrite X function in_arity out_arity code localVariables optimize c = Inr c'"
    and o: optimize
  from complexRewrite_items [OF r, THEN conjunct1, THEN mp, OF o]
  show "\<exists>c2 entry.
          moveIntoStack X 0
            (c\<lparr>m_asm := (m_asm c)\<lparr>m_usedTags := m_usedTags (m_asm c) + 1,
                  m_items := m_items (m_asm c)
                    @ replicate (nat (out_arity - in_arity)) (AssemblyItem_Instruction GAS)
                    @ [AssemblyItem_Type PushTag (m_usedTags (m_asm c))],
                  m_deposit := m_deposit (m_asm c)
                    + of_nat (nat (out_arity - in_arity)) + 1\<rparr>\<rparr>)
            = Inr c2
          \<and> m_lowLevelFunctions c' function = Some entry
          \<and> m_items (m_asm c') = m_items (m_asm c2)
              @ [entry, setJumpType IntoFunction (AssemblyItem_Instruction JUMP),
                 AssemblyItem_Type Tag (m_usedTags (m_asm c))]
              @ replicate (nat (in_arity - out_arity)) (AssemblyItem_Instruction POP)" .
next
  assume r: "complexRewrite X function in_arity out_arity code localVariables optimize c = Inr c'"
    and o: "\<not> optimize"
  from complexRewrite_items [OF r, THEN conjunct2, THEN mp, OF o]
  show "\<exists>c2.
          appendInlineAssembly X function code localVariables
            (c\<lparr>m_asm := (m_asm c)\<lparr>
                  m_items := m_items (m_asm c)
                    @ replicate (nat (out_arity - in_arity)) (AssemblyItem_Instruction GAS),
                  m_deposit := m_deposit (m_asm c)
                    + of_nat (nat (out_arity - in_arity))\<rparr>\<rparr>)
            = Inr c2
          \<and> m_items (m_asm c') = m_items (m_asm c2)
              @ replicate (nat (in_arity - out_arity)) (AssemblyItem_Instruction POP)" .
next
  assume cb: "appendCallback X i c = Inr (True, c'')"
  from appendCallback_replaced [OF cb] show "m_type i = Operation" by simp
next
  assume cb: "appendCallback X i c = Inr (True, c'')"
  from appendCallback_replaced [OF cb] obtain c3 where
    r: "rewriteOperation X (m_instruction i) (c\<lparr>m_disable_rewrite := True\<rparr>) = Inr (True, c3)"
    and c'': "c'' = c3\<lparr>m_disable_rewrite := False\<rparr>" by blast
  from assms(3) have "entriesArePushTags (c\<lparr>m_disable_rewrite := True\<rparr>)"
    by (simp add: entriesArePushTags_def)
  from rewriteOperation_deposit [OF assms(1,2) this r] c''
  show "m_deposit (m_asm c'') = m_deposit (m_asm c)
          + word_of_int (ret (instructionInfo (m_instruction i)) - args (instructionInfo (m_instruction i)))"
    by simp
next
  assume cb: "appendCallback X i c = Inr (True, c'')"
  from appendCallback_replaced [OF cb] obtain c3 where
    op: "m_type i = Operation"
    and r: "rewriteOperation X (m_instruction i) (c\<lparr>m_disable_rewrite := True\<rparr>) = Inr (True, c3)"
    and c'': "c'' = c3\<lparr>m_disable_rewrite := False\<rparr>" by blast
  from assms(3) have "entriesArePushTags (c\<lparr>m_disable_rewrite := True\<rparr>)"
    by (simp add: entriesArePushTags_def)
  from rewriteOperation_deposit [OF assms(1,2) this r] c''
  have d: "m_deposit (m_asm c'') = m_deposit (m_asm c)
          + word_of_int (ret (instructionInfo (m_instruction i)) - args (instructionInfo (m_instruction i)))"
    by simp
  show "\<forall>d. appendItem i c = Inr d \<longrightarrow> m_deposit (m_asm d) = m_deposit (m_asm c'')"
  proof (intro allI impI)
    fix d' assume "appendItem i c = Inr d'"
    from appendItem_Inr [OF this] op d show "m_deposit (m_asm d') = m_deposit (m_asm c'')"
      by (simp add: itemDeposit_def arguments_def returnValues_def)
  qed
next
  assume cb: "appendCallback X i c = Inr (True, c'')"
  from appendCallback_replaced [OF cb] obtain c3 where
    r: "rewriteOperation X (m_instruction i) (c\<lparr>m_disable_rewrite := True\<rparr>) = Inr (True, c3)"
    and c'': "c'' = c3\<lparr>m_disable_rewrite := False\<rparr>" by blast
  from rewriteOperation_complex [OF r] c''
  show "\<exists>signature in_arity' out_arity' code' localVariables' optimize' c3.
          complexRewrite X signature in_arity' out_arity' code' localVariables' optimize'
            (c\<lparr>m_disable_rewrite := True\<rparr>) = Inr c3
          \<and> c'' = c3\<lparr>m_disable_rewrite := False\<rparr>
          \<and> out_arity' - in_arity'
              = ret (instructionInfo (m_instruction i))
                - args (instructionInfo (m_instruction i))"
    by blast
qed

lemmas context_eval = complexRewrite_def simpleRewrite_def callLowLevelFunction_def pushNewTag_def
  newPushTag_def newTag_def appendItem_def Assembly_append_def lowLevelFunctionTag_def tag_def
  pushTag_def adjustStackOffset_def adjustDeposit_def appendJump_def exampleExternals_def
  context_with_def CompilerContext_init_def Assembly_init_def AssemblyItem_Type_def
  itemDeposit_simps appendTimes_numeral Let_def

lemma rewriteOperation_SSTORE:
  "rewriteOperation X SSTORE c =
     thenE (simpleRewrite X ''ovmSSTORE(bytes32,bytes32)'' 2 0 True c) (\<lambda>c'. Inr (True, c'))"
  unfolding rewriteOperation_def Let_def by simp

lemma AssemblyItem_Instruction_sel:
  "m_type (AssemblyItem_Instruction i) = Operation"
  "m_instruction (AssemblyItem_Instruction i) = i"
  by (simp_all add: AssemblyItem_Instruction_def)


lemma complexRewrite_example:
  "\<exists>c'. complexRewrite exampleExternals ''ovmCALL(uint256,address,bytes)'' 7 1 CallYUL
          [''retLength'', ''retOffset'', ''argsLength'', ''argsOffset'', ''value'', ''addr'', ''in_gas'']
          True (context_with 7) = Inr c'
        \<and> m_lowLevelFunctions c' ''ovmCALL(uint256,address,bytes)''
            = Some (AssemblyItem_Type PushTag 2)"
  by (simp add: context_eval)

lemma complexRewrite_pads_example:
  "\<exists>c'. complexRewrite exampleExternals ''ovmCALLER()'' 0 1 (SimpleYUL 0 1) [''x2'', ''x1'']
          True (context_with 0) = Inr c'
        \<and> m_lowLevelFunctions c' ''ovmCALLER()'' = Some (AssemblyItem_Type PushTag 2)"
  by (simp add: context_eval)

lemma appendCallback_example:
  "\<exists>c''. appendCallback exampleExternals (AssemblyItem_Instruction SSTORE) (context_with 2)
            = Inr (True, c'')
         \<and> m_items (m_asm c'')
             = [AssemblyItem_Type PushTag 1, AssemblyItem_Type PushTag 2,
                setJumpType IntoFunction (AssemblyItem_Instruction JUMP), AssemblyItem_Type Tag 1,
                AssemblyItem_Instruction POP, AssemblyItem_Instruction POP]"
  by (simp add: appendCallback_def rewriteOperation_SSTORE AssemblyItem_Instruction_sel context_eval)

lemma moveIntoStack_example: "moveIntoStack exampleExternals n c = Inr c2 \<Longrightarrow> c2 = c"
  by (simp add: exampleExternals_def)

text \<open>
  The rewrite of \<open>CALL\<close> (arities 7 and 1) at height 7 emits the call and six pops and ends
  at height 1; the rewrite of \<open>CALLER\<close> (arities 0 and 1) at height 0 emits one pad and the
  call and ends at height 1; the hook replaces \<open>SSTORE\<close> (arities 2 and 0) at height 2 by
  the call and two pops and ends at height 0.
\<close>

theorem rewrite_keeps_stack_delta_witness:
  "(\<exists>c'. complexRewrite exampleExternals ''ovmCALL(uint256,address,bytes)'' 7 1 CallYUL
          [''retLength'', ''retOffset'', ''argsLength'', ''argsOffset'', ''value'', ''addr'', ''in_gas'']
          True (context_with 7) = Inr c'
        \<and> m_deposit (m_asm c') = 1
        \<and> m_items (m_asm c')
            = [AssemblyItem_Type PushTag 1, AssemblyItem_Type PushTag 2,
               setJumpType IntoFunction (AssemblyItem_Instruction JUMP), AssemblyItem_Type Tag 1,
               AssemblyItem_Instruction POP, AssemblyItem_Instruction POP,
               AssemblyItem_Instruction POP, AssemblyItem_Instruction POP,
               AssemblyItem_Instruction POP, AssemblyItem_Instruction POP])
   \<and> (\<exists>c'. complexRewrite exampleExternals ''ovmCALLER()'' 0 1 (SimpleYUL 0 1) [''x2'', ''x1'']
          True (context_with 0) = Inr c'
        \<and> m_deposit (m_asm c') = 1
        \<and> m_items (m_asm c')
            = [AssemblyItem_Instruction GAS, AssemblyItem_Type PushTag 1,
               AssemblyItem_Type PushTag 2,
               setJumpType IntoFunction (AssemblyItem_Instruction JUMP), AssemblyItem_Type Tag 1])
   \<and> (\<exists>c''. appendCallback exampleExternals (AssemblyItem_Instruction SSTORE) (context_with 2)
               = Inr (True, c'')
        \<and> m_deposit (m_asm c'') = 0
        \<and> m_items (m_asm c'')
             = [AssemblyItem_Type PushTag 1, AssemblyItem_Type PushTag 2,
                setJumpType IntoFunction (AssemblyItem_Instruction JUMP), AssemblyItem_Type Tag 1,
                AssemblyItem_Instruction POP, AssemblyItem_Instruction POP])"
proof -
  note T = rewrite_keeps_stack_delta [OF stackNeutral_example registryFrame_example
      entriesArePushTags_init]
  from complexRewrite_example obtain c' where
    c': "complexRewrite exampleExternals ''ovmCALL(uint256,address,bytes)'' 7 1 CallYUL
          [''retLength'', ''retOffset'', ''argsLength'', ''argsOffset'', ''value'', ''addr'', ''in_gas'']
          True (context_with 7) = Inr c'"
    and e': "m_lowLevelFunctions c' ''ovmCALL(uint256,address,bytes)''
            = Some (AssemblyItem_Type PushTag 2)" by blast
  note U = T [THEN conjunct1, THEN mp, OF c']
  from U [THEN conjunct1]
  have a: "m_deposit (m_asm c') = 1" by (simp add: context_with_def)
  from U [THEN conjunct2, THEN conjunct1] obtain c2 entry where
    m: "moveIntoStack exampleExternals 0
          ((context_with 7)\<lparr>m_asm := (m_asm (context_with 7))\<lparr>
              m_usedTags := m_usedTags (m_asm (context_with 7)) + 1,
              m_items := m_items (m_asm (context_with 7))
                @ replicate (nat (1 - 7)) (AssemblyItem_Instruction GAS)
                @ [AssemblyItem_Type PushTag (m_usedTags (m_asm (context_with 7)))],
              m_deposit := m_deposit (m_asm (context_with 7)) + of_nat (nat (1 - 7)) + 1\<rparr>\<rparr>)
        = Inr c2"
    and e: "m_lowLevelFunctions c' ''ovmCALL(uint256,address,bytes)'' = Some entry"
    and i: "m_items (m_asm c') = m_items (m_asm c2)
              @ [entry, setJumpType IntoFunction (AssemblyItem_Instruction JUMP),
                 AssemblyItem_Type Tag (m_usedTags (m_asm (context_with 7)))]
              @ replicate (nat (7 - 1)) (AssemblyItem_Instruction POP)"
    by auto
  from e e' have en: "entry = AssemblyItem_Type PushTag 2" by simp
  from i moveIntoStack_example [OF m] en
  have b: "m_items (m_asm c')
            = [AssemblyItem_Type PushTag 1, AssemblyItem_Type PushTag 2,
               setJumpType IntoFunction (AssemblyItem_Instruction JUMP), AssemblyItem_Type Tag 1,
               AssemblyItem_Instruction POP, AssemblyItem_Instruction POP,
               AssemblyItem_Instruction POP, AssemblyItem_Instruction POP,
               AssemblyItem_Instruction POP, AssemblyItem_Instruction POP]"
    by (simp add: context_with_def CompilerContext_init_def Assembly_init_def numeral_eq_Suc)
  from complexRewrite_pads_example obtain d' where
    d': "complexRewrite exampleExternals ''ovmCALLER()'' 0 1 (SimpleYUL 0 1) [''x2'', ''x1'']
          True (context_with 0) = Inr d'"
    and f': "m_lowLevelFunctions d' ''ovmCALLER()'' = Some (AssemblyItem_Type PushTag 2)" by blast
  note V = T [THEN conjunct1, THEN mp, OF d']
  from V [THEN conjunct1]
  have p: "m_deposit (m_asm d') = 1" by (simp add: context_with_def)
  from V [THEN conjunct2, THEN conjunct1] obtain d2 entry' where
    m2: "moveIntoStack exampleExternals 0
          ((context_with 0)\<lparr>m_asm := (m_asm (context_with 0))\<lparr>
              m_usedTags := m_usedTags (m_asm (context_with 0)) + 1,
              m_items := m_items (m_asm (context_with 0))
                @ replicate (nat (1 - 0)) (AssemblyItem_Instruction GAS)
                @ [AssemblyItem_Type PushTag (m_usedTags (m_asm (context_with 0)))],
              m_deposit := m_deposit (m_asm (context_with 0)) + of_nat (nat (1 - 0)) + 1\<rparr>\<rparr>)
        = Inr d2"
    and e2: "m_lowLevelFunctions d' ''ovmCALLER()'' = Some entry'"
    and i2: "m_items (m_asm d') = m_items (m_asm d2)
              @ [entry', setJumpType IntoFunction (AssemblyItem_Instruction JUMP),
                 AssemblyItem_Type Tag (m_usedTags (m_asm (context_with 0)))]
              @ replicate (nat (0 - 1)) (AssemblyItem_Instruction POP)"
    by auto
  from e2 f' have en2: "entry' = AssemblyItem_Type PushTag 2" by simp
  from i2 moveIntoStack_example [OF m2] en2
  have q: "m_items (m_asm d')
            = [AssemblyItem_Instruction GAS, AssemblyItem_Type PushTag 1,
               AssemblyItem_Type PushTag 2,
               setJumpType IntoFunction (AssemblyItem_Instruction JUMP), AssemblyItem_Type Tag 1]"
    by (simp add: context_with_def CompilerContext_init_def Assembly_init_def)
  from appendCallback_example obtain c'' where
    c'': "appendCallback exampleExternals (AssemblyItem_Instruction SSTORE) (context_with 2) = Inr (True, c'')"
    and s: "m_items (m_asm c'')
             = [AssemblyItem_Type PushTag 1, AssemblyItem_Type PushTag 2,
                setJumpType IntoFunction (AssemblyItem_Instruction JUMP), AssemblyItem_Type Tag 1,
                AssemblyItem_Instruction POP, AssemblyItem_Instruction POP]" by blast
  from T [THEN conjunct2, THEN mp, OF c'', THEN conjunct2, THEN conjunct1]
  have h: "m_deposit (m_asm c'') = 0"
    by (simp add: context_with_def AssemblyItem_Instruction_sel instructionInfo_arities)
  from c' a b d' p q c'' h s show ?thesis by blast
qed

lemma registryGrows_trans:
  assumes "registryGrows a b" and "registryGrows b c"
  shows "registryGrows a c"
proof -
  from assms(1) obtain add1 where
    k1: "\<forall>fname entry. m_lowLevelFunctions a fname = Some entry \<longrightarrow> m_lowLevelFunctions b fname = Some entry"
    and n1: "\<forall>fname entry. m_lowLevelFunctions b fname = Some entry
               \<longrightarrow> m_lowLevelFunctions a fname = Some entry \<or> m_type entry = PushTag"
    and q1: "m_lowLevelFunctionGenerationQueue b = m_lowLevelFunctionGenerationQueue a @ add1"
    and u1: "\<forall>e \<in> set add1. m_lowLevelFunctions a (fst e) = None"
    unfolding registryGrows_def by blast
  from assms(2) obtain add2 where
    k2: "\<forall>fname entry. m_lowLevelFunctions b fname = Some entry \<longrightarrow> m_lowLevelFunctions c fname = Some entry"
    and n2: "\<forall>fname entry. m_lowLevelFunctions c fname = Some entry
               \<longrightarrow> m_lowLevelFunctions b fname = Some entry \<or> m_type entry = PushTag"
    and q2: "m_lowLevelFunctionGenerationQueue c = m_lowLevelFunctionGenerationQueue b @ add2"
    and u2: "\<forall>e \<in> set add2. m_lowLevelFunctions b (fst e) = None"
    unfolding registryGrows_def by blast
  have k: "\<forall>fname entry. m_lowLevelFunctions a fname = Some entry \<longrightarrow> m_lowLevelFunctions c fname = Some entry"
    using k1 k2 by blast
  have n: "\<forall>fname entry. m_lowLevelFunctions c fname = Some entry
               \<longrightarrow> m_lowLevelFunctions a fname = Some entry \<or> m_type entry = PushTag"
    using n1 n2 by blast
  have q: "m_lowLevelFunctionGenerationQueue c = m_lowLevelFunctionGenerationQueue a @ (add1 @ add2)"
    using q1 q2 by simp
  have "\<forall>e \<in> set add2. m_lowLevelFunctions a (fst e) = None"
  proof
    fix e assume "e \<in> set add2"
    with u2 have "m_lowLevelFunctions b (fst e) = None" by blast
    with k1 show "m_lowLevelFunctions a (fst e) = None"
      by (cases "m_lowLevelFunctions a (fst e)") auto
  qed
  with u1 have u: "\<forall>e \<in> set (add1 @ add2). m_lowLevelFunctions a (fst e) = None" by auto
  from k n q u show ?thesis unfolding registryGrows_def by blast
qed

lemma registryGrows_same:
  "m_lowLevelFunctions c' = m_lowLevelFunctions c \<Longrightarrow>
   m_lowLevelFunctionGenerationQueue c' = m_lowLevelFunctionGenerationQueue c \<Longrightarrow>
   registryGrows c c'"
  by (simp add: registryGrows_def)

lemma registryGrows_cong:
  "registryGrows a b \<Longrightarrow>
   m_lowLevelFunctions a' = m_lowLevelFunctions a \<Longrightarrow>
   m_lowLevelFunctionGenerationQueue a' = m_lowLevelFunctionGenerationQueue a \<Longrightarrow>
   m_lowLevelFunctions b' = m_lowLevelFunctions b \<Longrightarrow>
   m_lowLevelFunctionGenerationQueue b' = m_lowLevelFunctionGenerationQueue b \<Longrightarrow>
   registryGrows a' b'"
  by (simp add: registryGrows_def)

lemma setStackOffset_Inr:
  "setStackOffset offset c = Inr c' \<Longrightarrow>
     c' = c\<lparr>m_asm := (m_asm c)\<lparr>m_deposit := offset\<rparr>\<rparr> \<and> 0 \<le> sint offset"
  by (auto simp: setStackOffset_def setDeposit_def Let_def thenE_eq_Inr split: if_splits)

lemma runGenerator_grows:
  assumes "registryFrame X" and "runGenerator X gen c = Inr c'"
  shows "registryGrows c c'"
proof (cases gen)
  case (RewriteGenerator signature code localVariables)
  with assms(2) obtain c1 where
    a: "appendInlineAssembly X signature code (localVariables @ [''ret''])
          (c\<lparr>m_disable_rewrite := True\<rparr>) = Inr c1"
    and c': "c' = c1\<lparr>m_disable_rewrite := False\<rparr>"
    by (auto simp: runGenerator_def thenE_eq_Inr)
  from assms(1) a have "registryGrows (c\<lparr>m_disable_rewrite := True\<rparr>) c1"
    unfolding registryFrame_def by blast
  from registryGrows_cong [OF this, of c c'] c' show ?thesis by simp
next
  case (Closure k)
  with assms show ?thesis unfolding registryFrame_def by (simp add: runGenerator_def)
qed

lemma materialize_grows:
  assumes X: "registryFrame X" and m: "materialize X entry c = Inr c'"
  shows "registryGrows c c'"
proof -
  obtain fname inArgs outArgs gen where entry: "entry = (fname, inArgs, outArgs, gen)"
    by (cases entry)
  from m obtain c1 t c2 c3 c4 where
    s1: "setStackOffset (inArgs + 1) c = Inr c1"
    and s3: "appendItem t c1 = Inr c2"
    and s4: "runGenerator X gen c2 = Inr c3"
    and s5: "moveToStackTop X outArgs c3 = Inr c4"
    and s6: "appendJump OutOfFunction c4 = Inr c'"
    by (auto simp: materialize_def entry thenE_eq_Inr split: if_splits)
  from setStackOffset_Inr [OF s1] appendItem_Inr [OF s3]
  have g2: "registryGrows c c2" by (intro registryGrows_same) simp_all
  note g3 = runGenerator_grows [OF X s4]
  from X s5 have g4: "registryGrows c3 c4" unfolding registryFrame_def by blast
  from appendItem_Inr [OF s6 [unfolded appendJump_def]]
  have g5: "registryGrows c4 c'" by (intro registryGrows_same) simp_all
  from g2 g3 g4 g5 show ?thesis by (blast intro: registryGrows_trans)
qed

lemma drain_generates_queued:
  assumes X: "registryFrame X"
  shows "m_lowLevelFunctions c fname = Some entry \<Longrightarrow>
     appendMissingLowLevelFunctions X fuel c = Inr (generated, c') \<Longrightarrow>
     filter (\<lambda>e. fst e = fname) generated
       = filter (\<lambda>e. fst e = fname) (m_lowLevelFunctionGenerationQueue c)"
proof (induction fuel arbitrary: c generated)
  case 0
  then show ?case by (auto split: if_splits)
next
  case (Suc fuel)
  show ?case
  proof (cases "m_lowLevelFunctionGenerationQueue c")
    case Nil
    with Suc.prems show ?thesis by simp
  next
    case (Cons e queue)
    with Suc.prems(2) obtain c1 rest where
      m: "materialize X e (c\<lparr>m_lowLevelFunctionGenerationQueue := queue\<rparr>) = Inr c1"
      and d: "appendMissingLowLevelFunctions X fuel c1 = Inr (rest, c')"
      and g: "generated = e # rest"
      by (auto simp: thenE_eq_Inr)
    from materialize_grows [OF X m] obtain added where
      k: "\<forall>fname entry. m_lowLevelFunctions c fname = Some entry \<longrightarrow> m_lowLevelFunctions c1 fname = Some entry"
      and q: "m_lowLevelFunctionGenerationQueue c1 = queue @ added"
      and u: "\<forall>e \<in> set added. m_lowLevelFunctions c (fst e) = None"
      unfolding registryGrows_def by auto
    from k Suc.prems(1) have r1: "m_lowLevelFunctions c1 fname = Some entry" by blast
    from u Suc.prems(1) have "\<forall>e \<in> set added. fst e \<noteq> fname" by auto
    then have "filter (\<lambda>e. fst e = fname) added = []" by (simp add: filter_empty_conv)
    with Suc.IH [OF r1 d] q have "filter (\<lambda>e. fst e = fname) rest = filter (\<lambda>e. fst e = fname) queue"
      by simp
    with g Cons show ?thesis by simp
  qed
qed

lemma lowLevelFunctionTags_registered:
  "m_lowLevelFunctions c fname = Some entry \<Longrightarrow>
     lowLevelFunctionTags fname requests c = Inr (replicate (length requests) entry, c)"
proof (induction requests)
  case Nil
  then show ?case by simp
next
  case (Cons r requests)
  obtain inArgs outArgs gen where r: "r = (inArgs, outArgs, gen)" by (cases r)
  from Cons.prems have "lowLevelFunctionTag fname inArgs outArgs gen c = Inr (entry, c)"
    by (simp add: lowLevelFunctionTag_def)
  with Cons show ?case by (simp add: r)
qed

lemmas drain_eval = materialize_def setStackOffset_def setDeposit_def runGenerator_def stackHeight_def
  deposit_def context_requested_def AssemblyItem_Instruction_sel


lemma drain_rounds:
  "appendMissingLowLevelFunctions X fuel c = Inr (generated, c'') \<Longrightarrow>
     rounds X generated c = Inr c'' \<and> m_lowLevelFunctionGenerationQueue c'' = []"
proof (induction fuel arbitrary: c generated)
  case 0
  then show ?case by (auto split: if_splits)
next
  case (Suc fuel)
  show ?case
  proof (cases "m_lowLevelFunctionGenerationQueue c")
    case Nil
    with Suc.prems show ?thesis by auto
  next
    case (Cons e queue)
    with Suc.prems obtain c1 rest where
      m: "materialize X e (c\<lparr>m_lowLevelFunctionGenerationQueue := queue\<rparr>) = Inr c1"
      and d: "appendMissingLowLevelFunctions X fuel c1 = Inr (rest, c'')"
      and g: "generated = e # rest"
      by (auto simp: thenE_eq_Inr)
    from Suc.IH [OF d] m g Cons show ?thesis by simp
  qed
qed

lemma rounds_drain:
  "rounds X entries c = Inr c'' \<Longrightarrow> m_lowLevelFunctionGenerationQueue c'' = [] \<Longrightarrow>
     length entries \<le> fuel \<Longrightarrow>
     appendMissingLowLevelFunctions X fuel c = Inr (entries, c'')"
proof (induction entries arbitrary: c fuel)
  case Nil
  then show ?case by (cases fuel) simp_all
next
  case (Cons e entries)
  from Cons.prems(3) obtain fuel' where f: "fuel = Suc fuel'" "length entries \<le> fuel'"
    by (cases fuel) simp_all
  from Cons.prems(1) obtain queue c1 where
    q: "m_lowLevelFunctionGenerationQueue c = e # queue"
    and m: "materialize X e (c\<lparr>m_lowLevelFunctionGenerationQueue := queue\<rparr>) = Inr c1"
    and r: "rounds X entries c1 = Inr c''"
    by (auto simp: thenE_eq_Inr split: list.splits if_splits)
  from Cons.IH [OF r Cons.prems(2) f(2)] q m f(1) show ?case by simp
qed

lemma drain_more_fuel:
  "appendMissingLowLevelFunctions X fuel c = Inr (generated, c'') \<Longrightarrow>
     appendMissingLowLevelFunctions X (fuel + extra) c = Inr (generated, c'')"
proof -
  assume d: "appendMissingLowLevelFunctions X fuel c = Inr (generated, c'')"
  from drain_rounds [OF d] have r: "rounds X generated c = Inr c''"
    and e: "m_lowLevelFunctionGenerationQueue c'' = []" by simp_all
  have "length generated \<le> fuel" using d
  proof (induction fuel arbitrary: c generated)
    case 0
    then show ?case by (auto split: if_splits)
  next
    case (Suc fuel)
    show ?case
    proof (cases "m_lowLevelFunctionGenerationQueue c")
      case Nil
      with Suc.prems show ?thesis by auto
    next
      case (Cons e queue)
      with Suc.prems obtain c1 rest where
        "appendMissingLowLevelFunctions X fuel c1 = Inr (rest, c'')" "generated = e # rest"
        by (auto simp: thenE_eq_Inr)
      with Suc.IH [of c1 rest] show ?thesis by simp
    qed
  qed
  then have "length generated \<le> fuel + extra" by simp
  from rounds_drain [OF r e this] show ?thesis .
qed

lemma rounds_append:
  "rounds X (xs @ ys) c = thenE (rounds X xs c) (rounds X ys)"
proof (induction xs arbitrary: c)
  case Nil
  then show ?case by simp
next
  case (Cons x xs)
  show ?case
  proof (cases "m_lowLevelFunctionGenerationQueue c")
    case Nil
    then show ?thesis by simp
  next
    case (Cons front queue)
    show ?thesis
    proof (cases "materialize X x (c\<lparr>m_lowLevelFunctionGenerationQueue := queue\<rparr>)")
      case (Inl e)
      with Cons show ?thesis by simp
    next
      case (Inr c1)
      with Cons Cons.IH [of c1] show ?thesis by simp
    qed
  qed
qed

lemma rounds_registered:
  assumes X: "registryFrame X"
  shows "rounds X entries c = Inr c' \<Longrightarrow> m_lowLevelFunctions c fname = Some entry \<Longrightarrow>
     m_lowLevelFunctions c' fname = Some entry"
proof (induction entries arbitrary: c)
  case Nil
  then show ?case by simp
next
  case (Cons e entries)
  from Cons.prems(1) obtain queue c1 where
    m: "materialize X e (c\<lparr>m_lowLevelFunctionGenerationQueue := queue\<rparr>) = Inr c1"
    and r: "rounds X entries c1 = Inr c'"
    by (auto simp: thenE_eq_Inr split: list.splits if_splits)
  from materialize_grows [OF X m] Cons.prems(2) have "m_lowLevelFunctions c1 fname = Some entry"
    unfolding registryGrows_def by simp
  from Cons.IH [OF r this] show ?case .
qed

lemma materialize_Inr:
  assumes "materialize X (fname, inArgs, outArgs, gen) c = Inr c5"
  shows "\<exists>c1 entryTag t c2 c3 c4.
           setStackOffset (inArgs + 1) c = Inr c1
           \<and> m_lowLevelFunctions c fname = Some entryTag
           \<and> tag entryTag = Inr t
           \<and> appendItem t c1 = Inr c2
           \<and> runGenerator X gen c2 = Inr c3
           \<and> moveToStackTop X outArgs c3 = Inr c4
           \<and> appendJump OutOfFunction c4 = Inr c5
           \<and> stackHeight c5 = Inr outArgs"
proof -
  from assms obtain c1 t c2 c3 c4 c5' height where
    s1: "setStackOffset (inArgs + 1) c = Inr c1"
    and s2: "(case m_lowLevelFunctions c1 fname of None \<Rightarrow> Inl OutOfRange
               | Some entryTag \<Rightarrow> tag entryTag) = Inr t"
    and s3: "appendItem t c1 = Inr c2"
    and s4: "runGenerator X gen c2 = Inr c3"
    and s5: "moveToStackTop X outArgs c3 = Inr c4"
    and s6: "appendJump OutOfFunction c4 = Inr c5'"
    and s7: "stackHeight c5' = Inr height"
    and s8: "(if \<not> height = outArgs then Inl InternalCompilerError else Inr c5') = Inr c5"
    by (auto simp: materialize_def thenE_eq_Inr)
  from s8 have h: "height = outArgs" "c5' = c5" by (auto split: if_splits)
  from s2 obtain entryTag where e: "m_lowLevelFunctions c1 fname = Some entryTag"
    and t: "tag entryTag = Inr t" by (auto split: option.splits)
  from setStackOffset_Inr [OF s1] e have "m_lowLevelFunctions c fname = Some entryTag" by simp
  with s1 t s3 s4 s5 s6 s7 h show ?thesis by blast
qed

lemma runGenerator_externals:
  "runGenerator X gen c = Inr c' \<Longrightarrow>
     (\<forall>k. gen = Closure k \<longrightarrow> runClosure X k c = Inr c')
     \<and> (\<forall>signature code localVariables. gen = RewriteGenerator signature code localVariables \<longrightarrow>
          (\<exists>c1. appendInlineAssembly X signature code (localVariables @ [''ret''])
                   (c\<lparr>m_disable_rewrite := True\<rparr>) = Inr c1
                \<and> c' = c1\<lparr>m_disable_rewrite := False\<rparr>))"
  by (auto simp: runGenerator_def thenE_eq_Inr)

lemma rounds_Cons_Inr:
  "rounds X (e # es) c = Inr c'' \<Longrightarrow>
     \<exists>queue c1. m_lowLevelFunctionGenerationQueue c = e # queue
        \<and> materialize X e (c\<lparr>m_lowLevelFunctionGenerationQueue := queue\<rparr>) = Inr c1
        \<and> rounds X es c1 = Inr c''"
  by (auto simp: thenE_eq_Inr split: list.splits if_splits)

lemma drain_round_of:
  assumes X: "registryFrame X"
    and reg: "m_lowLevelFunctions c' fname = Some entry"
    and d: "appendMissingLowLevelFunctions X fuel c' = Inr (generated, c'')"
    and f: "filter (\<lambda>e. fst e = fname) generated = [(fname, inArgs, outArgs, gen)]"
  shows "\<exists>before after ca waiting c1 t c2 c3 c4 c5.
           generated = before @ (fname, inArgs, outArgs, gen) # after
           \<and> (\<forall>e \<in> set (before @ after). fst e \<noteq> fname)
           \<and> rounds X before c' = Inr ca
           \<and> m_lowLevelFunctionGenerationQueue ca = (fname, inArgs, outArgs, gen) # waiting
           \<and> setStackOffset (inArgs + 1) (ca\<lparr>m_lowLevelFunctionGenerationQueue := waiting\<rparr>) = Inr c1
           \<and> tag entry = Inr t
           \<and> appendItem t c1 = Inr c2
           \<and> runGenerator X gen c2 = Inr c3
           \<and> (\<forall>k. gen = Closure k \<longrightarrow> runClosure X k c2 = Inr c3)
           \<and> (\<forall>signature code localVariables.
                 gen = RewriteGenerator signature code localVariables \<longrightarrow>
                 (\<exists>c3'. appendInlineAssembly X signature code (localVariables @ [''ret''])
                          (c2\<lparr>m_disable_rewrite := True\<rparr>) = Inr c3'
                       \<and> c3 = c3'\<lparr>m_disable_rewrite := False\<rparr>))
           \<and> moveToStackTop X outArgs c3 = Inr c4
           \<and> appendJump OutOfFunction c4 = Inr c5
           \<and> stackHeight c5 = Inr outArgs
           \<and> rounds X after c5 = Inr c''"
proof -
  let ?first = "(fname, inArgs, outArgs, gen)"
  from filter_eq_ConsD [OF f] obtain before after where
    g: "generated = before @ ?first # after"
    and nb: "\<forall>u \<in> set before. \<not> fst u = fname"
    and na: "[] = filter (\<lambda>e. fst e = fname) after"
    by blast
  from na [symmetric] have na': "\<forall>u \<in> set after. fst u \<noteq> fname"
    unfolding filter_empty_conv by simp
  from nb na' have none: "\<forall>e \<in> set (before @ after). fst e \<noteq> fname" by auto
  from drain_rounds [OF d] have "rounds X generated c' = Inr c''" by (rule conjunct1)
  then have "thenE (rounds X before c') (rounds X (?first # after)) = Inr c''"
    unfolding g rounds_append .
  then obtain ca where rb: "rounds X before c' = Inr ca"
    and rr: "rounds X (?first # after) ca = Inr c''"
    unfolding thenE_eq_Inr by blast
  from rounds_Cons_Inr [OF rr] obtain waiting c5 where
    q: "m_lowLevelFunctionGenerationQueue ca = ?first # waiting"
    and m: "materialize X ?first (ca\<lparr>m_lowLevelFunctionGenerationQueue := waiting\<rparr>) = Inr c5"
    and ra: "rounds X after c5 = Inr c''"
    by blast
  from rounds_registered [OF X rb reg] have rega: "m_lowLevelFunctions ca fname = Some entry" .
  from materialize_Inr [OF m] obtain c1 entryTag t c2 c3 c4 where
    s1: "setStackOffset (inArgs + 1) (ca\<lparr>m_lowLevelFunctionGenerationQueue := waiting\<rparr>) = Inr c1"
    and s2: "m_lowLevelFunctions (ca\<lparr>m_lowLevelFunctionGenerationQueue := waiting\<rparr>) fname
               = Some entryTag"
    and s3: "tag entryTag = Inr t"
    and s4: "appendItem t c1 = Inr c2"
    and s5: "runGenerator X gen c2 = Inr c3"
    and s6: "moveToStackTop X outArgs c3 = Inr c4"
    and s7: "appendJump OutOfFunction c4 = Inr c5"
    and s8: "stackHeight c5 = Inr outArgs"
    by blast
  from s2 rega have "entryTag = entry" by simp
  with s3 have s3': "tag entry = Inr t" by simp
  from runGenerator_externals [OF s5]
  have e1: "\<forall>k. gen = Closure k \<longrightarrow> runClosure X k c2 = Inr c3"
    and e2: "\<forall>signature code localVariables.
                 gen = RewriteGenerator signature code localVariables \<longrightarrow>
                 (\<exists>c3'. appendInlineAssembly X signature code (localVariables @ [''ret''])
                          (c2\<lparr>m_disable_rewrite := True\<rparr>) = Inr c3'
                       \<and> c3 = c3'\<lparr>m_disable_rewrite := False\<rparr>)"
    by simp_all
  show ?thesis
    apply (rule exI [of _ before], rule exI [of _ after], rule exI [of _ ca])
    apply (rule exI [of _ waiting], rule exI [of _ c1], rule exI [of _ t], rule exI [of _ c2])
    apply (rule exI [of _ c3], rule exI [of _ c4], rule exI [of _ c5])
    apply (intro conjI g none rb q s1 s3' s4 s5 e1 e2 s6 s7 s8 ra)
    done
qed

text \<open>
  C2. For a name neither registered nor queued, K = 1 + \<open>length requests\<close> requests return
  K times the same entry tag and the queue grows by the tuple of the first request only.
  Every drain that returns has generated for that name the tuple of the first request,
  once: its rounds are those before, in which no entry has the name, the round that pops
  the tuple of the first request, sets the stack offset, appends the entry tag and runs
  the generator of the first request (the closure, or the inline assembly of the rewrite
  generator, is run on the context so reached), and those after, in which no entry has
  the name. The result does not depend on the fuel: more fuel gives the same; when the
  rounds for a list of entries leave the queue empty, fuel for that many rounds gives the
  result; and when nothing else was queued and the one round for the name passes its
  steps and leaves the queue empty, the drain returns after that round on any fuel but 0.
\<close>

theorem helper_generated_once:
  assumes frame: "registryFrame X"
    and fresh: "m_lowLevelFunctions c fname = None"
    and pending: "\<forall>e \<in> set (m_lowLevelFunctionGenerationQueue c). fst e \<noteq> fname"
    and tags: "m_usedTags (m_asm c) < 0xffffffff"
  shows "\<exists>entry c'.
      lowLevelFunctionTags fname ((inArgs, outArgs, gen) # requests) c
        = Inr (replicate (Suc (length requests)) entry, c')
      \<and> m_lowLevelFunctions c' fname = Some entry
      \<and> m_lowLevelFunctionGenerationQueue c'
          = m_lowLevelFunctionGenerationQueue c @ [(fname, inArgs, outArgs, gen)]
      \<and> (\<forall>fuel generated c''.
            appendMissingLowLevelFunctions X fuel c' = Inr (generated, c'')
            \<longrightarrow> filter (\<lambda>e. fst e = fname) generated = [(fname, inArgs, outArgs, gen)]
              \<and> (\<exists>before after ca waiting c1 t c2 c3 c4 c5.
                    generated = before @ (fname, inArgs, outArgs, gen) # after
                    \<and> (\<forall>e \<in> set (before @ after). fst e \<noteq> fname)
                    \<and> rounds X before c' = Inr ca
                    \<and> m_lowLevelFunctionGenerationQueue ca = (fname, inArgs, outArgs, gen) # waiting
                    \<and> setStackOffset (inArgs + 1)
                        (ca\<lparr>m_lowLevelFunctionGenerationQueue := waiting\<rparr>) = Inr c1
                    \<and> tag entry = Inr t
                    \<and> appendItem t c1 = Inr c2
                    \<and> runGenerator X gen c2 = Inr c3
                    \<and> (\<forall>k. gen = Closure k \<longrightarrow> runClosure X k c2 = Inr c3)
                    \<and> (\<forall>signature code localVariables.
                          gen = RewriteGenerator signature code localVariables \<longrightarrow>
                          (\<exists>c3'. appendInlineAssembly X signature code (localVariables @ [''ret''])
                                   (c2\<lparr>m_disable_rewrite := True\<rparr>) = Inr c3'
                                \<and> c3 = c3'\<lparr>m_disable_rewrite := False\<rparr>))
                    \<and> moveToStackTop X outArgs c3 = Inr c4
                    \<and> appendJump OutOfFunction c4 = Inr c5
                    \<and> stackHeight c5 = Inr outArgs
                    \<and> rounds X after c5 = Inr c'')
              \<and> (\<forall>extra. appendMissingLowLevelFunctions X (fuel + extra) c' = Inr (generated, c'')))
      \<and> (\<forall>entries c'' fuel.
            rounds X entries c' = Inr c'' \<and> m_lowLevelFunctionGenerationQueue c'' = []
            \<and> length entries \<le> fuel
            \<longrightarrow> appendMissingLowLevelFunctions X fuel c' = Inr (entries, c''))
      \<and> (\<forall>c1 t c2 c3 c4 c5 fuel.
            m_lowLevelFunctionGenerationQueue c = []
            \<and> setStackOffset (inArgs + 1) (c'\<lparr>m_lowLevelFunctionGenerationQueue := []\<rparr>) = Inr c1
            \<and> tag entry = Inr t
            \<and> appendItem t c1 = Inr c2
            \<and> runGenerator X gen c2 = Inr c3
            \<and> moveToStackTop X outArgs c3 = Inr c4
            \<and> appendJump OutOfFunction c4 = Inr c5
            \<and> stackHeight c5 = Inr outArgs
            \<and> m_lowLevelFunctionGenerationQueue c5 = []
            \<longrightarrow> appendMissingLowLevelFunctions X (Suc fuel) c'
                  = Inr ([(fname, inArgs, outArgs, gen)], c5))"
proof -
  let ?entry = "AssemblyItem_Type PushTag (m_usedTags (m_asm c))"
  let ?c1 = "c\<lparr>m_asm := (m_asm c)\<lparr>m_usedTags := m_usedTags (m_asm c) + 1\<rparr>,
               m_lowLevelFunctions := (m_lowLevelFunctions c)(fname \<mapsto> ?entry),
               m_lowLevelFunctionGenerationQueue :=
                 m_lowLevelFunctionGenerationQueue c @ [(fname, inArgs, outArgs, gen)]\<rparr>"
  from fresh tags have first: "lowLevelFunctionTag fname inArgs outArgs gen c = Inr (?entry, ?c1)"
    by (simp add: lowLevelFunctionTag_def newTag_def pushTag_def AssemblyItem_Type_def)
  have reg: "m_lowLevelFunctions ?c1 fname = Some ?entry" by simp
  from lowLevelFunctionTags_registered [OF reg, of requests] first
  have all: "lowLevelFunctionTags fname ((inArgs, outArgs, gen) # requests) c
        = Inr (replicate (Suc (length requests)) ?entry, ?c1)"
    by simp
  have q: "m_lowLevelFunctionGenerationQueue ?c1
          = m_lowLevelFunctionGenerationQueue c @ [(fname, inArgs, outArgs, gen)]" by simp
  from pending have "filter (\<lambda>e. fst e = fname) (m_lowLevelFunctionGenerationQueue c) = []"
    by (simp add: filter_empty_conv)
  with q have f: "filter (\<lambda>e. fst e = fname) (m_lowLevelFunctionGenerationQueue ?c1)
      = [(fname, inArgs, outArgs, gen)]" by simp
  have drain: "\<forall>fuel generated c''.
            appendMissingLowLevelFunctions X fuel ?c1 = Inr (generated, c'')
            \<longrightarrow> filter (\<lambda>e. fst e = fname) generated = [(fname, inArgs, outArgs, gen)]
              \<and> (\<exists>before after ca waiting c1 t c2 c3 c4 c5.
                    generated = before @ (fname, inArgs, outArgs, gen) # after
                    \<and> (\<forall>e \<in> set (before @ after). fst e \<noteq> fname)
                    \<and> rounds X before ?c1 = Inr ca
                    \<and> m_lowLevelFunctionGenerationQueue ca = (fname, inArgs, outArgs, gen) # waiting
                    \<and> setStackOffset (inArgs + 1)
                        (ca\<lparr>m_lowLevelFunctionGenerationQueue := waiting\<rparr>) = Inr c1
                    \<and> tag ?entry = Inr t
                    \<and> appendItem t c1 = Inr c2
                    \<and> runGenerator X gen c2 = Inr c3
                    \<and> (\<forall>k. gen = Closure k \<longrightarrow> runClosure X k c2 = Inr c3)
                    \<and> (\<forall>signature code localVariables.
                          gen = RewriteGenerator signature code localVariables \<longrightarrow>
                          (\<exists>c3'. appendInlineAssembly X signature code (localVariables @ [''ret''])
                                   (c2\<lparr>m_disable_rewrite := True\<rparr>) = Inr c3'
                                \<and> c3 = c3'\<lparr>m_disable_rewrite := False\<rparr>))
                    \<and> moveToStackTop X outArgs c3 = Inr c4
                    \<and> appendJump OutOfFunction c4 = Inr c5
                    \<and> stackHeight c5 = Inr outArgs
                    \<and> rounds X after c5 = Inr c'')
              \<and> (\<forall>extra. appendMissingLowLevelFunctions X (fuel + extra) ?c1 = Inr (generated, c''))"
  proof (intro allI impI)
    fix fuel generated c''
    assume d: "appendMissingLowLevelFunctions X fuel ?c1 = Inr (generated, c'')"
    from drain_generates_queued [OF frame reg d] f
    have once: "filter (\<lambda>e. fst e = fname) generated = [(fname, inArgs, outArgs, gen)]" by simp
    note round = drain_round_of [OF frame reg d once]
    from drain_more_fuel [OF d]
    have more: "\<forall>extra. appendMissingLowLevelFunctions X (fuel + extra) ?c1 = Inr (generated, c'')"
      by blast
    from once round more
    show "filter (\<lambda>e. fst e = fname) generated = [(fname, inArgs, outArgs, gen)]
              \<and> (\<exists>before after ca waiting c1 t c2 c3 c4 c5.
                    generated = before @ (fname, inArgs, outArgs, gen) # after
                    \<and> (\<forall>e \<in> set (before @ after). fst e \<noteq> fname)
                    \<and> rounds X before ?c1 = Inr ca
                    \<and> m_lowLevelFunctionGenerationQueue ca = (fname, inArgs, outArgs, gen) # waiting
                    \<and> setStackOffset (inArgs + 1)
                        (ca\<lparr>m_lowLevelFunctionGenerationQueue := waiting\<rparr>) = Inr c1
                    \<and> tag ?entry = Inr t
                    \<and> appendItem t c1 = Inr c2
                    \<and> runGenerator X gen c2 = Inr c3
                    \<and> (\<forall>k. gen = Closure k \<longrightarrow> runClosure X k c2 = Inr c3)
                    \<and> (\<forall>signature code localVariables.
                          gen = RewriteGenerator signature code localVariables \<longrightarrow>
                          (\<exists>c3'. appendInlineAssembly X signature code (localVariables @ [''ret''])
                                   (c2\<lparr>m_disable_rewrite := True\<rparr>) = Inr c3'
                                \<and> c3 = c3'\<lparr>m_disable_rewrite := False\<rparr>))
                    \<and> moveToStackTop X outArgs c3 = Inr c4
                    \<and> appendJump OutOfFunction c4 = Inr c5
                    \<and> stackHeight c5 = Inr outArgs
                    \<and> rounds X after c5 = Inr c'')
              \<and> (\<forall>extra. appendMissingLowLevelFunctions X (fuel + extra) ?c1 = Inr (generated, c''))"
      by (intro conjI)
  qed
  have enough: "\<forall>entries c'' fuel.
            rounds X entries ?c1 = Inr c'' \<and> m_lowLevelFunctionGenerationQueue c'' = []
            \<and> length entries \<le> fuel
            \<longrightarrow> appendMissingLowLevelFunctions X fuel ?c1 = Inr (entries, c'')"
  proof (intro allI impI)
    fix entries c'' fuel
    assume h: "rounds X entries ?c1 = Inr c'' \<and> m_lowLevelFunctionGenerationQueue c'' = []
            \<and> length entries \<le> fuel"
    then have h1: "rounds X entries ?c1 = Inr c''"
      and h2: "m_lowLevelFunctionGenerationQueue c'' = []"
      and h3: "length entries \<le> fuel" by simp_all
    from rounds_drain [OF h1 h2 h3]
    show "appendMissingLowLevelFunctions X fuel ?c1 = Inr (entries, c'')" .
  qed
  have single: "\<forall>c1 t c2 c3 c4 c5 fuel.
            m_lowLevelFunctionGenerationQueue c = []
            \<and> setStackOffset (inArgs + 1) (?c1\<lparr>m_lowLevelFunctionGenerationQueue := []\<rparr>) = Inr c1
            \<and> tag ?entry = Inr t
            \<and> appendItem t c1 = Inr c2
            \<and> runGenerator X gen c2 = Inr c3
            \<and> moveToStackTop X outArgs c3 = Inr c4
            \<and> appendJump OutOfFunction c4 = Inr c5
            \<and> stackHeight c5 = Inr outArgs
            \<and> m_lowLevelFunctionGenerationQueue c5 = []
            \<longrightarrow> appendMissingLowLevelFunctions X (Suc fuel) ?c1
                  = Inr ([(fname, inArgs, outArgs, gen)], c5)"
  proof (intro allI impI)
    fix c1 t c2 c3 c4 c5 fuel
    assume h: "m_lowLevelFunctionGenerationQueue c = []
            \<and> setStackOffset (inArgs + 1) (?c1\<lparr>m_lowLevelFunctionGenerationQueue := []\<rparr>) = Inr c1
            \<and> tag ?entry = Inr t
            \<and> appendItem t c1 = Inr c2
            \<and> runGenerator X gen c2 = Inr c3
            \<and> moveToStackTop X outArgs c3 = Inr c4
            \<and> appendJump OutOfFunction c4 = Inr c5
            \<and> stackHeight c5 = Inr outArgs
            \<and> m_lowLevelFunctionGenerationQueue c5 = []"
    then have e: "m_lowLevelFunctionGenerationQueue c = []"
      and s1: "setStackOffset (inArgs + 1) (?c1\<lparr>m_lowLevelFunctionGenerationQueue := []\<rparr>) = Inr c1"
      and s2: "tag ?entry = Inr t"
      and s3: "appendItem t c1 = Inr c2"
      and s4: "runGenerator X gen c2 = Inr c3"
      and s5: "moveToStackTop X outArgs c3 = Inr c4"
      and s6: "appendJump OutOfFunction c4 = Inr c5"
      and s7: "stackHeight c5 = Inr outArgs"
      and s8: "m_lowLevelFunctionGenerationQueue c5 = []"
      by simp_all
    from setStackOffset_Inr [OF s1] have r1: "m_lowLevelFunctions c1 fname = Some ?entry" by simp
    from s1 r1 s2 s3 s4 s5 s6 s7
    have m: "materialize X (fname, inArgs, outArgs, gen)
               (?c1\<lparr>m_lowLevelFunctionGenerationQueue := []\<rparr>) = Inr c5"
      by (simp add: materialize_def)
    from s8 have "rounds X [(fname, inArgs, outArgs, gen)] ?c1 = Inr c5"
      using m e by simp
    from rounds_drain [OF this s8, of "Suc fuel"]
    show "appendMissingLowLevelFunctions X (Suc fuel) ?c1 = Inr ([(fname, inArgs, outArgs, gen)], c5)"
      by simp
  qed
  show ?thesis
    by (rule exI [of _ ?entry], rule exI [of _ ?c1]) (intro conjI all reg q drain enough single)
qed

lemma itemDeposit_Push: "m_type t = Push \<Longrightarrow> itemDeposit t = 1"
  by (simp add: itemDeposit_def arguments_def returnValues_def)

lemma registryFrame_pushing: "registryFrame pushingExternals"
proof -
  have "registryGrows c c'" if r: "runClosure pushingExternals k c = Inr c'" for k c c'
  proof -
    from r obtain c1 where
      a: "(if k = 7
           then thenE (lowLevelFunctionTag ''ovmCALLER()'' 0 1 (Closure 8) c) (\<lambda>(entry, c'). Inr c')
           else Inr c) = Inr c1"
      and b: "appendItem (AssemblyItem_Type Push k) c1 = Inr c'"
      by (auto simp: pushingExternals_def thenE_eq_Inr)
    from a have g1: "registryGrows c c1"
      by (auto simp: thenE_eq_Inr registryGrows_refl dest: lowLevelFunctionTag_Inr(4)
          split: if_splits)
    from appendItem_Inr [OF b] have g2: "registryGrows c1 c'"
      by (intro registryGrows_same) simp_all
    from registryGrows_trans [OF g1 g2] show ?thesis .
  qed
  then show ?thesis
    by (simp add: registryFrame_def pushingExternals_def registryGrows_refl)
qed

lemma requests_example:
  "lowLevelFunctionTags ''ovmCALLER()'' [(0, 1, Closure 7), (0, 1, Closure 1), (0, 1, Closure 2)]
      CompilerContext_init
     = Inr ([AssemblyItem_Type PushTag 1, AssemblyItem_Type PushTag 1, AssemblyItem_Type PushTag 1],
            context_requested ''ovmCALLER()'' 0 1 (Closure 7))"
  by (simp add: lowLevelFunctionTag_def newTag_def pushTag_def context_requested_def
      CompilerContext_init_def Assembly_init_def AssemblyItem_Type_def)

text \<open>
  Three requests for \<open>ovmCALLER()\<close> with three closures that push 7, 1 and 2; the first
  requests the name again while it runs. The drain, on fuel 1 and on fuel 5, emits the
  entry tag, the push of 7 and the jump out: closure 7 has run once, closures 1 and 2 have
  not.
\<close>

theorem helper_generated_once_witness:
  "\<exists>entry c' c''.
     lowLevelFunctionTags ''ovmCALLER()'' [(0, 1, Closure 7), (0, 1, Closure 1), (0, 1, Closure 2)]
       CompilerContext_init = Inr ([entry, entry, entry], c')
     \<and> m_lowLevelFunctions c' ''ovmCALLER()'' = Some entry
     \<and> m_lowLevelFunctionGenerationQueue c' = [(''ovmCALLER()'', 0, 1, Closure 7)]
     \<and> appendMissingLowLevelFunctions pushingExternals (Suc 0) c'
         = Inr ([(''ovmCALLER()'', 0, 1, Closure 7)], c'')
     \<and> appendMissingLowLevelFunctions pushingExternals (Suc 4) c'
         = Inr ([(''ovmCALLER()'', 0, 1, Closure 7)], c'')
     \<and> m_items (m_asm c'')
         = [AssemblyItem_Type Tag 1, AssemblyItem_Type Push 7,
            setJumpType OutOfFunction (AssemblyItem_Instruction JUMP)]"
proof -
  let ?cr = "context_requested ''ovmCALLER()'' 0 1 (Closure 7)"
  let ?c1 = "?cr\<lparr>m_lowLevelFunctionGenerationQueue := [],
                m_asm := (m_asm ?cr)\<lparr>m_deposit := 1\<rparr>\<rparr>"
  let ?t = "AssemblyItem_Type Tag 1"
  let ?c2 = "?c1\<lparr>m_asm := (m_asm ?c1)\<lparr>m_items := [?t]\<rparr>\<rparr>"
  let ?c3 = "?c2\<lparr>m_asm := (m_asm ?c2)\<lparr>m_deposit := 2,
                m_items := [?t, AssemblyItem_Type Push 7]\<rparr>\<rparr>"
  let ?j = "setJumpType OutOfFunction (AssemblyItem_Instruction JUMP)"
  let ?c5 = "?c3\<lparr>m_asm := (m_asm ?c3)\<lparr>m_deposit := 1,
                m_items := [?t, AssemblyItem_Type Push 7, ?j]\<rparr>\<rparr>"
  have h: "m_lowLevelFunctions CompilerContext_init ''ovmCALLER()'' = None"
    "\<forall>e \<in> set (m_lowLevelFunctionGenerationQueue CompilerContext_init). fst e \<noteq> ''ovmCALLER()''"
    "m_usedTags (m_asm CompilerContext_init) < 0xffffffff"
    by (simp_all add: CompilerContext_init_def Assembly_init_def)
  have a: "m_lowLevelFunctionGenerationQueue CompilerContext_init = []"
    "setStackOffset (0 + 1) (?cr\<lparr>m_lowLevelFunctionGenerationQueue := []\<rparr>) = Inr ?c1"
    "tag (AssemblyItem_Type PushTag 1) = Inr ?t"
    "appendItem ?t ?c1 = Inr ?c2"
    "runGenerator pushingExternals (Closure 7) ?c2 = Inr ?c3"
    "moveToStackTop pushingExternals 1 ?c3 = Inr ?c3"
    "appendJump OutOfFunction ?c3 = Inr ?c5"
    "stackHeight ?c5 = Inr 1"
    "m_lowLevelFunctionGenerationQueue ?c5 = []"
    by (simp_all add: drain_eval context_eval pushingExternals_def itemDeposit_Push)
  have i: "m_items (m_asm ?c5) = [?t, AssemblyItem_Type Push 7, ?j]" by simp
  from helper_generated_once [OF registryFrame_pushing h, of 0 1 "Closure 7"
      "[(0, 1, Closure 1), (0, 1, Closure 2)]"]
  show ?thesis
  proof (elim exE conjE)
    fix entry c'
    assume r: "lowLevelFunctionTags ''ovmCALLER()''
          [(0, 1, Closure 7), (0, 1, Closure 1), (0, 1, Closure 2)] CompilerContext_init
        = Inr (replicate (Suc (length [(0 :: 32 word, 1 :: 32 word, Closure 1), (0, 1, Closure 2)]))
                 entry, c')"
      and reg: "m_lowLevelFunctions c' ''ovmCALLER()'' = Some entry"
      and q: "m_lowLevelFunctionGenerationQueue c'
          = m_lowLevelFunctionGenerationQueue CompilerContext_init
            @ [(''ovmCALLER()'', 0, 1, Closure 7)]"
      and single: "\<forall>c1 t c2 c3 c4 c5 fuel.
            m_lowLevelFunctionGenerationQueue CompilerContext_init = []
            \<and> setStackOffset (0 + 1) (c'\<lparr>m_lowLevelFunctionGenerationQueue := []\<rparr>) = Inr c1
            \<and> tag entry = Inr t
            \<and> appendItem t c1 = Inr c2
            \<and> runGenerator pushingExternals (Closure 7) c2 = Inr c3
            \<and> moveToStackTop pushingExternals 1 c3 = Inr c4
            \<and> appendJump OutOfFunction c4 = Inr c5
            \<and> stackHeight c5 = Inr 1
            \<and> m_lowLevelFunctionGenerationQueue c5 = []
            \<longrightarrow> appendMissingLowLevelFunctions pushingExternals (Suc fuel) c'
                  = Inr ([(''ovmCALLER()'', 0, 1, Closure 7)], c5)"
    from r requests_example have c': "c' = ?cr"
      and e: "replicate (Suc (length [(0 :: 32 word, 1 :: 32 word, Closure 1), (0, 1, Closure 2)])) entry
               = [entry, entry, entry]"
      by simp_all
    from reg c' have en: "entry = AssemblyItem_Type PushTag 1"
      by (simp add: context_requested_def)
    have steps: "m_lowLevelFunctionGenerationQueue CompilerContext_init = []
            \<and> setStackOffset (0 + 1) (c'\<lparr>m_lowLevelFunctionGenerationQueue := []\<rparr>) = Inr ?c1
            \<and> tag entry = Inr ?t
            \<and> appendItem ?t ?c1 = Inr ?c2
            \<and> runGenerator pushingExternals (Closure 7) ?c2 = Inr ?c3
            \<and> moveToStackTop pushingExternals 1 ?c3 = Inr ?c3
            \<and> appendJump OutOfFunction ?c3 = Inr ?c5
            \<and> stackHeight ?c5 = Inr 1
            \<and> m_lowLevelFunctionGenerationQueue ?c5 = []"
      unfolding c' en by (intro conjI a)
    from single [rule_format, OF steps, of 0]
    have d0: "appendMissingLowLevelFunctions pushingExternals (Suc 0) c'
         = Inr ([(''ovmCALLER()'', 0, 1, Closure 7)], ?c5)" .
    from single [rule_format, OF steps, of 4]
    have d4: "appendMissingLowLevelFunctions pushingExternals (Suc 4) c'
         = Inr ([(''ovmCALLER()'', 0, 1, Closure 7)], ?c5)" .
    from q have q': "m_lowLevelFunctionGenerationQueue c' = [(''ovmCALLER()'', 0, 1, Closure 7)]"
      by (simp add: CompilerContext_init_def)
    from r e have r': "lowLevelFunctionTags ''ovmCALLER()''
         [(0, 1, Closure 7), (0, 1, Closure 1), (0, 1, Closure 2)]
         CompilerContext_init = Inr ([entry, entry, entry], c')" by simp
    show ?thesis
      apply (rule exI [of _ entry], rule exI [of _ c'], rule exI [of _ ?c5])
      apply (intro conjI r' reg q' d0 d4 i)
      done
  qed
qed



end
